theory Spec2Isabelle
  imports Complex_Main "HOL-Library.Log_Nat" "HOL-Library.Word"
begin

section \<open>Python numbers\<close>

text \<open>
  \<^verbatim>\<open>generate_icons.py\<close> computes with Python integers (unbounded, modelled as \<open>int\<close>) and
  Python floats. A finite float is a rational number, so floats are modelled as \<open>rat\<close>, and
  every float operation returns the exact result rounded to the nearest IEEE binary64 value,
  ties to even (53 significant bits). The exponent range is not bounded: overflow and
  subnormal numbers need magnitudes beyond \<open>2 ^ 1023\<close> or below \<open>2 ^ - 1022\<close>, which no
  image size that fits in memory produces.
\<close>

datatype error = ValueError | IndexError | ZeroDivisionError | OverflowError | MemoryError

definition ilog2 :: "rat \<Rightarrow> int" where
  \<comment> \<open>the exponent \<open>e\<close> with \<open>2 ^ e \<le> q < 2 ^ (e + 1)\<close>, for \<open>0 < q\<close>\<close>
  "ilog2 q = (if 1 \<le> q then bitlen \<lfloor>q\<rfloor> - 1 else - bitlen (\<lceil>1 / q\<rceil> - 1))"

definition round_half_even :: "rat \<Rightarrow> int" where
  "round_half_even x =
     (let f = \<lfloor>x\<rfloor>; d = x - of_int f
      in if d < 1 / 2 then f else if 1 / 2 < d then f + 1 else if even f then f else f + 1)"

definition fl_pos :: "rat \<Rightarrow> rat" where
  "fl_pos q = (let e = ilog2 q - 52 in of_int (round_half_even (q / 2 powi e)) * 2 powi e)"

definition fl :: "rat \<Rightarrow> rat" where
  \<comment> \<open>rounding to binary64\<close>
  "fl q = (if q = 0 then 0 else if q < 0 then - fl_pos (- q) else fl_pos q)"

definition float_of_int :: "int \<Rightarrow> rat" where
  \<comment> \<open>the conversion Python applies to the \<open>int\<close> operand of a mixed operation\<close>
  "float_of_int n = fl (of_int n)"

definition fmul :: "rat \<Rightarrow> rat \<Rightarrow> rat" where
  "fmul a b = fl (a * b)"

definition fadd :: "rat \<Rightarrow> rat \<Rightarrow> rat" where
  "fadd a b = fl (a + b)"

definition truediv :: "int \<Rightarrow> int \<Rightarrow> error + rat" where
  \<comment> \<open>\<open>a / b\<close> on two Python ints: the correctly rounded quotient\<close>
  "truediv a b = (if b = 0 then Inl ZeroDivisionError else Inr (fl (of_int a / of_int b)))"

definition py_int :: "rat \<Rightarrow> int" where
  \<comment> \<open>\<open>int(x)\<close> on a float: truncation towards zero\<close>
  "py_int x = (if 0 \<le> x then \<lfloor>x\<rfloor> else \<lceil>x\<rceil>)"

definition py_range :: "int \<Rightarrow> int list" where
  \<comment> \<open>\<open>range(n)\<close>: empty when \<open>n \<le> 0\<close>\<close>
  "py_range n = map int [0..<nat n]"

fun for_each :: "'a list \<Rightarrow> ('a \<Rightarrow> 's \<Rightarrow> error + 's) \<Rightarrow> 's \<Rightarrow> error + 's" where
  "for_each [] body s = Inr s"
| "for_each (x # xs) body s =
     (case body x s of Inl e \<Rightarrow> Inl e | Inr s' \<Rightarrow> for_each xs body s')"


section \<open>The Pillow operations the script calls\<close>

text \<open>
  The script draws with Pillow. An RGBA image is a buffer of 8-bit channels; image objects
  live in a store and are denoted by references, because \<open>putpixel\<close> and the \<open>ImageDraw\<close>
  methods mutate a buffer in place while \<open>Image.new\<close> and \<open>Image.alpha_composite\<close>
  allocate a new one.

  \<^item> \<open>Image.new\<close> rejects a negative width or height with \<open>ValueError\<close>; zero is accepted.
    A width or height from \<open>2 ^ 31\<close> on does not fit the C \<open>int\<close> the size is converted to
    (\<open>OverflowError\<close>), and a width above \<open>INT_MAX / 4 - 1 = 536870910\<close> fails the check of
    the line size (\<open>MemoryError\<close>). Below these bounds the allocation is taken to succeed:
    the memory of the machine is not modelled.
  \<^item> \<open>putpixel\<close> clips each channel of the colour to \<open>0..255\<close> (\<open>CLIP8\<close>), counts a
    negative coordinate from the far edge and raises \<open>IndexError\<close> outside the image.
  \<^item> \<open>alpha_composite\<close> is Pillow's integer implementation of the "over" operator, with 7
    extra bits of precision; its intermediate values stay below \<open>2 ^ 31\<close>, so they are
    computed on \<open>nat\<close>.
  \<^item> \<open>ImageDraw.Draw(im)\<close> keeps the buffer of \<open>im\<close>; \<open>ellipse\<close> and \<open>line\<close> store the
    fill colour in the pixels of the shape that lie inside the image. Which pixels a shape
    covers is left as a parameter (\<open>shapes\<close>): no result below depends on it.
    \<open>ellipse\<close> rejects a box whose second corner lies before the first with \<open>ValueError\<close>,
    as recent versions of Pillow do.
\<close>

type_synonym rgba = "8 word \<times> 8 word \<times> 8 word \<times> 8 word"

type_synonym color = "int \<times> int \<times> int \<times> int"

record image =
  width :: nat
  height :: nat
  data :: "rgba list"  \<comment> \<open>row by row: pixel \<open>(x, y)\<close> is at index \<open>y * width + x\<close>\<close>

type_synonym ref = nat

type_synonym heap = "image list"

definition clip8 :: "int \<Rightarrow> 8 word" where
  "clip8 v = (if v \<le> 0 then 0 else if v < 256 then word_of_int v else 255)"

definition getink :: "color \<Rightarrow> rgba" where
  "getink c = (case c of (r, g, b, a) \<Rightarrow> (clip8 r, clip8 g, clip8 b, clip8 a))"

definition Image_new :: "int \<times> int \<Rightarrow> color \<Rightarrow> heap \<Rightarrow> error + (ref \<times> heap)" where
  "Image_new sz c h =
     (case sz of (w, ht) \<Rightarrow>
        if w < 0 \<or> ht < 0 then Inl ValueError
        else if 2 ^ 31 \<le> w \<or> 2 ^ 31 \<le> ht then Inl OverflowError
        else if 536870910 < w then Inl MemoryError
        else Inr (length h,
                  h @ [\<lparr>width = nat w, height = nat ht,
                        data = replicate (nat w * nat ht) (getink c)\<rparr>]))"

definition putpixel :: "ref \<Rightarrow> int \<times> int \<Rightarrow> color \<Rightarrow> heap \<Rightarrow> error + heap" where
  "putpixel r xy c h =
     (case xy of (x, y) \<Rightarrow>
        let im = h ! r;
            x' = (if x < 0 then int (width im) + x else x);
            y' = (if y < 0 then int (height im) + y else y)
        in if x' < 0 \<or> int (width im) \<le> x' \<or> y' < 0 \<or> int (height im) \<le> y'
           then Inl IndexError
           else Inr (h[r := im\<lparr>data := (data im)[nat y' * width im + nat x' := getink c]\<rparr>]))"

definition getpixel :: "image \<Rightarrow> int \<times> int \<Rightarrow> error + rgba" where
  "getpixel im xy =
     (case xy of (x, y) \<Rightarrow>
        let x' = (if x < 0 then int (width im) + x else x);
            y' = (if y < 0 then int (height im) + y else y)
        in if x' < 0 \<or> int (width im) \<le> x' \<or> y' < 0 \<or> int (height im) \<le> y'
           then Inl IndexError
           else Inr (data im ! (nat y' * width im + nat x')))"

definition shift_for_div255 :: "nat \<Rightarrow> nat" where
  "shift_for_div255 a = (a div 256 + a) div 256"

definition composite_pixel :: "rgba \<Rightarrow> rgba \<Rightarrow> rgba" where
  "composite_pixel dst src =
     (case dst of (dr, dg, db, da) \<Rightarrow>
      case src of (sr, sg, sb, sa) \<Rightarrow>
        if sa = 0 then dst
        else
          let blend = unat da * (255 - unat sa);
              outa255 = unat sa * 255 + blend;
              coef1 = unat sa * 255 * 255 * 128 div outa255;
              coef2 = 255 * 128 - coef1;
              tmpr = unat sr * coef1 + unat dr * coef2;
              tmpg = unat sg * coef1 + unat dg * coef2;
              tmpb = unat sb * coef1 + unat db * coef2
          in (of_nat (shift_for_div255 (tmpr + 128 * 128) div 128),
              of_nat (shift_for_div255 (tmpg + 128 * 128) div 128),
              of_nat (shift_for_div255 (tmpb + 128 * 128) div 128),
              of_nat (shift_for_div255 (outa255 + 128))))"

definition alpha_composite :: "ref \<Rightarrow> ref \<Rightarrow> heap \<Rightarrow> error + (ref \<times> heap)" where
  "alpha_composite im1 im2 h =
     (let dst = h ! im1; src = h ! im2
      in if width dst = width src \<and> height dst = height src
         then Inr (length h,
                   h @ [\<lparr>width = width dst, height = height dst,
                         data = map2 composite_pixel (data dst) (data src)\<rparr>])
         else Inl ValueError)"

datatype draw = Draw ref

definition ImageDraw_Draw :: "ref \<Rightarrow> draw" where
  "ImageDraw_Draw im = Draw im"

type_synonym box = "int \<times> int \<times> int \<times> int"

record shapes =
  ellipse_cover :: "box \<Rightarrow> (int \<times> int) list"
  line_cover :: "box \<Rightarrow> int \<Rightarrow> (int \<times> int) list"

definition paint :: "(int \<times> int) list \<Rightarrow> rgba \<Rightarrow> image \<Rightarrow> image" where
  "paint pts ink im =
     fold (\<lambda>p im'. case p of (x, y) \<Rightarrow>
             if x < 0 \<or> int (width im') \<le> x \<or> y < 0 \<or> int (height im') \<le> y then im'
             else im'\<lparr>data := (data im')[nat y * width im' + nat x := ink]\<rparr>)
          pts im"

definition draw_ellipse :: "shapes \<Rightarrow> draw \<Rightarrow> box \<Rightarrow> color \<Rightarrow> heap \<Rightarrow> error + heap" where
  "draw_ellipse S d xy fill h =
     (case d of Draw r \<Rightarrow>
      case xy of (x0, y0, x1, y1) \<Rightarrow>
        if x1 < x0 \<or> y1 < y0 then Inl ValueError
        else Inr (h[r := paint (ellipse_cover S xy) (getink fill) (h ! r)]))"

definition draw_line :: "shapes \<Rightarrow> draw \<Rightarrow> box \<Rightarrow> color \<Rightarrow> int \<Rightarrow> heap \<Rightarrow> heap" where
  "draw_line S d xy fill w h =
     (case d of Draw r \<Rightarrow> h[r := paint (line_cover S xy w) (getink fill) (h ! r)])"


section \<open>\<^verbatim>\<open>create_icon\<close>\<close>

definition gradient_color :: "int \<Rightarrow> int \<Rightarrow> int \<Rightarrow> error + color" where
  \<comment> \<open>lines 18 to 21: the colour computed for pixel \<open>(x, y)\<close>\<close>
  "gradient_color sz x y =
     (case truediv (x + y) (2 * sz) of
        Inl e \<Rightarrow> Inl e
      | Inr gradient \<Rightarrow>
          let r = py_int (fadd (float_of_int 102) (fmul gradient (float_of_int 118)));
              g = py_int (fadd (float_of_int 126) (fmul gradient (float_of_int 46)));
              b = py_int (fadd (float_of_int 234) (fmul gradient (float_of_int 24)))
          in Inr (r, g, b, 255))"

definition gradient_background :: "ref \<Rightarrow> int \<Rightarrow> heap \<Rightarrow> error + heap" where
  \<comment> \<open>lines 15 to 22: the two nested loops\<close>
  "gradient_background img sz h =
     for_each (py_range sz)
       (\<lambda>y. for_each (py_range sz)
          (\<lambda>x h'. case gradient_color sz x y of
                     Inl e \<Rightarrow> Inl e
                   | Inr c \<Rightarrow> putpixel img (x, y) c h'))
       h"

definition ray_endpoints :: "int \<Rightarrow> int \<Rightarrow> int \<Rightarrow> int \<Rightarrow> box" where
  \<comment> \<open>lines 40 to 89: \<open>(start_x, start_y, end_x, end_y)\<close> of ray \<open>i\<close>\<close>
  "ray_endpoints i center sun_radius ray_length =
     (let angle = fl (fmul (float_of_int (i * 45)) (fl (314159 / 100000)) / float_of_int 180);
          start_x = center + py_int (fmul (fmul (float_of_int (sun_radius + 10)) (fl (7 / 10))) (fl (7 / 10)));
          start_y = center + py_int (fmul (fmul (float_of_int (sun_radius + 10)) (fl (7 / 10))) (fl (7 / 10)));
          end_x = center + py_int (fmul (fmul (float_of_int (sun_radius + ray_length)) (fl (7 / 10))) (fl (7 / 10)));
          end_y = center + py_int (fmul (fmul (float_of_int (sun_radius + ray_length)) (fl (7 / 10))) (fl (7 / 10)));
          cos_a = fl (7071 / 10000);
          sin_a = fl (7071 / 10000)
      in if i = 0 then
           (center + sun_radius + 10, center, center + sun_radius + ray_length, center)
         else if i = 1 then
           (center + py_int (fmul (float_of_int (sun_radius + 10)) cos_a),
            center + py_int (fmul (float_of_int (sun_radius + 10)) sin_a),
            center + py_int (fmul (float_of_int (sun_radius + ray_length)) cos_a),
            center + py_int (fmul (float_of_int (sun_radius + ray_length)) sin_a))
         else if i = 2 then
           (center, center + sun_radius + 10, center, center + sun_radius + ray_length)
         else if i = 3 then
           (center - py_int (fmul (float_of_int (sun_radius + 10)) cos_a),
            center + py_int (fmul (float_of_int (sun_radius + 10)) sin_a),
            center - py_int (fmul (float_of_int (sun_radius + ray_length)) cos_a),
            center + py_int (fmul (float_of_int (sun_radius + ray_length)) sin_a))
         else if i = 4 then
           (center - sun_radius - 10, center, center - sun_radius - ray_length, center)
         else if i = 5 then
           (center - py_int (fmul (float_of_int (sun_radius + 10)) cos_a),
            center - py_int (fmul (float_of_int (sun_radius + 10)) sin_a),
            center - py_int (fmul (float_of_int (sun_radius + ray_length)) cos_a),
            center - py_int (fmul (float_of_int (sun_radius + ray_length)) sin_a))
         else if i = 6 then
           (center, center - sun_radius - 10, center, center - sun_radius - ray_length)
         else if i = 7 then
           (center + py_int (fmul (float_of_int (sun_radius + 10)) cos_a),
            center - py_int (fmul (float_of_int (sun_radius + 10)) sin_a),
            center + py_int (fmul (float_of_int (sun_radius + ray_length)) cos_a),
            center - py_int (fmul (float_of_int (sun_radius + ray_length)) sin_a))
         else (start_x, start_y, end_x, end_y))"

definition draw_rays :: "shapes \<Rightarrow> draw \<Rightarrow> int \<Rightarrow> int \<Rightarrow> int \<Rightarrow> int \<Rightarrow> heap \<Rightarrow> heap" where
  \<comment> \<open>lines 39 to 94: the loop over the eight rays, each struck \<open>ray_width\<close> times\<close>
  "draw_rays S d center sun_radius ray_length ray_width h =
     fold (\<lambda>i h'. case ray_endpoints i center sun_radius ray_length of
                     (start_x, start_y, end_x, end_y) \<Rightarrow>
                       fold (\<lambda>w. draw_line S d (start_x + w, start_y + w, end_x + w, end_y + w)
                                    (255, 215, 0, 255) 1)
                            (py_range ray_width) h')
          (py_range 8) h"

definition create_icon :: "shapes \<Rightarrow> int \<Rightarrow> heap \<Rightarrow> error + (ref \<times> heap)" where
  "create_icon S sz h0 =
     (case Image_new (sz, sz) (0, 0, 0, 0) h0 of
        Inl e \<Rightarrow> Inl e
      | Inr (img, h1) \<Rightarrow>
     let draw = ImageDraw_Draw img in
     (case gradient_background img sz h1 of
        Inl e \<Rightarrow> Inl e
      | Inr h2 \<Rightarrow>
     (case Image_new (sz, sz) (255, 255, 255, 25) h2 of
        Inl e \<Rightarrow> Inl e
      | Inr (glass_overlay, h3) \<Rightarrow>
     (case alpha_composite img glass_overlay h3 of
        Inl e \<Rightarrow> Inl e
      | Inr (img', h4) \<Rightarrow>
     let center = sz div 2;
         sun_radius = py_int (fmul (float_of_int sz) (fl (23 / 100)))
     in
     (case draw_ellipse S draw
             (center - sun_radius, center - sun_radius,
              center + sun_radius, center + sun_radius)
             (255, 215, 0, 255) h4 of
        Inl e \<Rightarrow> Inl e
      | Inr h5 \<Rightarrow>
     let ray_length = py_int (fmul (float_of_int sz) (fl (15 / 100)));
         ray_width = max 2 (sz div 64);
         h6 = draw_rays S draw center sun_radius ray_length ray_width h5;
         highlight_size = py_int (fmul (float_of_int sz) (fl (8 / 100)));
         highlight_x = center - py_int (fmul (float_of_int sun_radius) (fl (7 / 10)));
         highlight_y = center - py_int (fmul (float_of_int sun_radius) (fl (7 / 10)))
     in
     (case draw_ellipse S draw
             (highlight_x, highlight_y,
              highlight_x + highlight_size, highlight_y + highlight_size)
             (255, 255, 255, 80) h6 of
        Inl e \<Rightarrow> Inl e
      | Inr h7 \<Rightarrow> Inr (img', h7)))))))"

definition sizes :: "int list" where
  \<comment> \<open>line 112 of \<open>main\<close>\<close>
  "sizes = [72, 96, 128, 144, 152, 192, 384, 512]"

definition gradient_ink :: "int \<Rightarrow> int \<Rightarrow> int \<Rightarrow> rgba" where
  \<comment> \<open>what lines 18 to 22 store at \<open>(x, y)\<close>: the colour of \<open>gradient_color\<close>, as \<open>putpixel\<close>
      writes it\<close>
  "gradient_ink sz x y =
     (let gradient = fl (of_int (x + y) / of_int (2 * sz))
      in (clip8 (py_int (fadd (float_of_int 102) (fmul gradient (float_of_int 118)))),
          clip8 (py_int (fadd (float_of_int 126) (fmul gradient (float_of_int 46)))),
          clip8 (py_int (fadd (float_of_int 234) (fmul gradient (float_of_int 24)))),
          255))"

definition gradient_data :: "nat \<Rightarrow> rgba list" where
  "gradient_data n =
     concat (map (\<lambda>y. map (\<lambda>x. gradient_ink (int n) (int x) (int y)) [0..<n]) [0..<n])"

definition returned :: "error + (ref \<times> heap) \<Rightarrow> error + image" where
  \<comment> \<open>the image object a call hands back, or the exception it raises\<close>
  "returned res = (case res of Inl e \<Rightarrow> Inl e | Inr (r, h) \<Rightarrow> Inr (h ! r))"

definition pixel_of :: "error + image \<Rightarrow> int \<times> int \<Rightarrow> error + rgba" where
  \<comment> \<open>\<open>getpixel\<close> on the image a call hands back\<close>
  "pixel_of res xy = (case res of Inl e \<Rightarrow> Inl e | Inr im \<Rightarrow> getpixel im xy)"

definition gradient_step :: "int \<Rightarrow> heap \<Rightarrow> error + (ref \<times> heap)" where
  \<comment> \<open>lines 11 to 22 of \<open>create_icon\<close>: the canvas after the gradient loops, before the overlay\<close>
  "gradient_step sz h0 =
     (case Image_new (sz, sz) (0, 0, 0, 0) h0 of
        Inl e \<Rightarrow> Inl e
      | Inr (img, h1) \<Rightarrow>
     (case gradient_background img sz h1 of
        Inl e \<Rightarrow> Inl e
      | Inr h2 \<Rightarrow> Inr (img, h2)))"

definition gradient_and_glass :: "int \<Rightarrow> heap \<Rightarrow> error + (ref \<times> heap)" where
  \<comment> \<open>lines 11 to 26 of \<open>create_icon\<close> alone: gradient fill, then the glass overlay composite,
      with no drawing call after it\<close>
  "gradient_and_glass sz h0 =
     (case Image_new (sz, sz) (0, 0, 0, 0) h0 of
        Inl e \<Rightarrow> Inl e
      | Inr (img, h1) \<Rightarrow>
     (case gradient_background img sz h1 of
        Inl e \<Rightarrow> Inl e
      | Inr h2 \<Rightarrow>
     (case Image_new (sz, sz) (255, 255, 255, 25) h2 of
        Inl e \<Rightarrow> Inl e
      | Inr (glass_overlay, h3) \<Rightarrow> alpha_composite img glass_overlay h3)))"

definition glass_data :: "nat \<Rightarrow> rgba list" where
  "glass_data n = replicate (n * n) (getink (255, 255, 255, 25))"

definition composed :: "nat \<Rightarrow> image" where
  \<comment> \<open>the gradient under the glass overlay\<close>
  "composed n = \<lparr>width = n, height = n,
                 data = map2 composite_pixel (gradient_data n) (glass_data n)\<rparr>"

definition compass_step :: "int \<Rightarrow> int \<times> int" where
  \<comment> \<open>the eight compass directions, 45 degrees apart, \<open>y\<close> growing downwards:
      right, bottom-right, bottom, bottom-left, left, top-left, top, top-right\<close>
  "compass_step i =
     (if i = 0 then (1, 0) else if i = 1 then (1, 1) else if i = 2 then (0, 1)
      else if i = 3 then (- 1, 1) else if i = 4 then (- 1, 0) else if i = 5 then (- 1, - 1)
      else if i = 6 then (0, - 1) else (1, - 1))"

definition ray_reach :: "int \<Rightarrow> int \<Rightarrow> int" where
  \<comment> \<open>the offset along each axis of a point at distance \<open>d\<close> in direction \<open>i\<close>: \<open>d\<close> itself on
      an axis, \<open>int(d * 0.7071)\<close> on a diagonal\<close>
  "ray_reach i d = (if even i then d else py_int (fmul (float_of_int d) (fl (7071 / 10000))))"

definition claimed_diagonal :: "int \<Rightarrow> int" where
  \<comment> \<open>the diagonal offset with the constant the specification names, \<open>0.70711\<close>\<close>
  "claimed_diagonal d = py_int (fmul (float_of_int d) (fl (70711 / 100000)))"

definition sample_shapes :: shapes where
  \<comment> \<open>one rasteriser, to instantiate statements: the grid points of the ellipse inscribed in the
      box, and the grid points next to the segment, one for each step along its longer side\<close>
  "sample_shapes =
     \<lparr>ellipse_cover = (\<lambda>b. case b of (x0, y0, x1, y1) \<Rightarrow>
          [(x, y). y \<leftarrow> [y0..y1], x \<leftarrow> [x0..x1],
             (2 * x - x0 - x1)\<^sup>2 * (y1 - y0)\<^sup>2 + (2 * y - y0 - y1)\<^sup>2 * (x1 - x0)\<^sup>2
               \<le> (x1 - x0)\<^sup>2 * (y1 - y0)\<^sup>2]),
      line_cover = (\<lambda>b w. case b of (x0, y0, x1, y1) \<Rightarrow>
          let n = max \<bar>x1 - x0\<bar> \<bar>y1 - y0\<bar>
          in if n = 0 then [(x0, y0)]
             else map (\<lambda>k. (x0 + (2 * k * (x1 - x0) + n) div (2 * n),
                            y0 + (2 * k * (y1 - y0) + n) div (2 * n))) [0..n])\<rparr>"


section \<open>Rounding to binary64\<close>

lemma ilog2_ge1:
  assumes "1 \<le> q"
  shows "2 powi (ilog2 q) \<le> q \<and> q < 2 powi (ilog2 q + 1)"
proof -
  let ?n = "\<lfloor>q\<rfloor>"
  have n: "0 < ?n" using assms by simp
  have b1: "1 \<le> bitlen ?n" using n by (simp add: bitlen_ge_iff_power)
  from bitlen_bounds[OF n] have lo: "2 ^ nat (bitlen ?n - 1) \<le> ?n" and hi: "?n < 2 ^ nat (bitlen ?n)"
    by auto
  have "(of_int (2 ^ nat (bitlen ?n - 1)) :: rat) \<le> of_int ?n"
    using lo of_int_le_iff by blast
  also have "\<dots> \<le> q" by simp
  finally have A: "2 powi (ilog2 q) \<le> q"
    using assms b1 by (simp add: ilog2_def power_int_def)
  have "?n + 1 \<le> 2 ^ nat (bitlen ?n)" using hi by simp
  then have "(of_int (?n + 1) :: rat) \<le> of_int (2 ^ nat (bitlen ?n))"
    using of_int_le_iff by blast
  moreover have "q < of_int (?n + 1)" by linarith
  ultimately have "q < 2 ^ nat (bitlen ?n)" by simp
  then have B: "q < 2 powi (ilog2 q + 1)"
    using assms b1 by (simp add: ilog2_def power_int_def)
  from A B show ?thesis ..
qed

lemma ilog2_lt1:
  assumes "0 < q" "q < 1"
  shows "2 powi (ilog2 q) \<le> q \<and> q < 2 powi (ilog2 q + 1)"
proof -
  let ?p = "1 / q"
  let ?n = "\<lceil>?p\<rceil> - 1"
  have p1: "1 < ?p" using assms by simp
  have n: "0 < ?n" using p1 by linarith
  have b1: "1 \<le> bitlen ?n" using n by (simp add: bitlen_ge_iff_power)
  from bitlen_bounds[OF n] have lo: "2 ^ nat (bitlen ?n - 1) \<le> ?n" and hi: "?n < 2 ^ nat (bitlen ?n)"
    by auto
  have e: "ilog2 q = - bitlen ?n" using assms by (simp add: ilog2_def)
  have "\<lceil>?p\<rceil> \<le> 2 ^ nat (bitlen ?n)" using hi by simp
  then have "(of_int \<lceil>?p\<rceil> :: rat) \<le> of_int (2 ^ nat (bitlen ?n))"
    using of_int_le_iff by blast
  then have "?p \<le> 2 ^ nat (bitlen ?n)" by (simp add: ceiling_le_iff)
  then have "1 \<le> q * 2 ^ nat (bitlen ?n)"
    using assms(1) by (simp add: field_simps)
  then have A: "2 powi (ilog2 q) \<le> q"
    using b1 by (simp add: e power_int_def field_simps)
  have "(of_int (2 ^ nat (bitlen ?n - 1)) :: rat) \<le> of_int ?n"
    using lo of_int_le_iff by blast
  also have "\<dots> < ?p" by linarith
  finally have "(2::rat) ^ nat (bitlen ?n - 1) < 1 / q" by simp
  then have "q * 2 ^ nat (bitlen ?n - 1) < 1"
    using assms(1) by (simp add: field_simps)
  moreover have "2 powi (ilog2 q + 1) = 1 / (2::rat) ^ nat (bitlen ?n - 1)"
  proof (cases "bitlen ?n = 1")
    case True
    then show ?thesis by (simp add: e)
  next
    case False
    with b1 have "ilog2 q + 1 < 0" by (simp add: e)
    moreover have "nat (- (ilog2 q + 1)) = nat (bitlen ?n - 1)" by (simp add: e)
    ultimately show ?thesis by (simp add: power_int_def field_simps)
  qed
  ultimately have B: "q < 2 powi (ilog2 q + 1)"
    by (simp add: pos_less_divide_eq)
  from A B show ?thesis ..
qed

lemma ilog2_bounds:
  "0 < q \<Longrightarrow> 2 powi (ilog2 q) \<le> q \<and> q < 2 powi (ilog2 q + 1)"
  using ilog2_ge1 [of q] ilog2_lt1 [of q] by (cases "1 \<le> q") auto

lemma rhe_ge: "of_int n \<le> x \<Longrightarrow> n \<le> round_half_even x"
proof -
  assume "of_int n \<le> x"
  then have "n \<le> \<lfloor>x\<rfloor>" by (simp add: le_floor_iff)
  then show ?thesis by (simp add: round_half_even_def Let_def)
qed

lemma rhe_le: "x \<le> of_int n \<Longrightarrow> round_half_even x \<le> n"
proof -
  assume a: "x \<le> of_int n"
  show ?thesis
  proof (cases "x = of_int n")
    case True
    then show ?thesis by (simp add: round_half_even_def Let_def)
  next
    case False
    with a have "x < of_int n" by simp
    then have "\<lfloor>x\<rfloor> < n" by (simp add: floor_less_iff)
    then show ?thesis by (simp add: round_half_even_def Let_def)
  qed
qed

lemma rhe_mono: "x \<le> y \<Longrightarrow> round_half_even x \<le> round_half_even y"
proof -
  assume xy: "x \<le> y"
  then have f: "\<lfloor>x\<rfloor> \<le> \<lfloor>y\<rfloor>" by (rule floor_mono)
  show ?thesis
  proof (cases "\<lfloor>x\<rfloor> = \<lfloor>y\<rfloor>")
    case True
    then have "x - of_int \<lfloor>x\<rfloor> \<le> y - of_int \<lfloor>y\<rfloor>" using xy by simp
    then show ?thesis using True by (auto simp: round_half_even_def Let_def)
  next
    case False
    with f have "\<lfloor>x\<rfloor> + 1 \<le> \<lfloor>y\<rfloor>" by simp
    moreover have "round_half_even x \<le> \<lfloor>x\<rfloor> + 1" by (simp add: round_half_even_def Let_def)
    moreover have "\<lfloor>y\<rfloor> \<le> round_half_even y" by (simp add: round_half_even_def Let_def)
    ultimately show ?thesis by linarith
  qed
qed

lemma two_powi_pos: "(0::rat) < 2 powi k"
  by (simp add: zero_less_power_int)

lemma two_powi_add: "(2::rat) powi (a + b) = 2 powi a * 2 powi b"
  by (simp add: power_int_add)

lemma two_powi_mono: "a \<le> b \<Longrightarrow> (2::rat) powi a \<le> 2 powi b"
  by (rule power_int_increasing) simp_all

lemma fl_pos_bounds:
  assumes "0 < q"
  shows "2 powi (ilog2 q) \<le> fl_pos q \<and> fl_pos q \<le> 2 powi (ilog2 q + 1)"
proof -
  let ?e = "ilog2 q - 52"
  let ?m = "q / 2 powi ?e"
  have s: "(2::rat) powi ?e > 0" by (rule two_powi_pos)
  from ilog2_bounds[OF assms] have lo: "2 powi (ilog2 q) \<le> q" and hi: "q < 2 powi (ilog2 q + 1)"
    by auto
  have e1: "(2::rat) powi (ilog2 q) = 2 powi ?e * 2 ^ 52"
    using two_powi_add [of ?e 52] by simp
  have e2: "(2::rat) powi (ilog2 q + 1) = 2 powi ?e * 2 ^ 53"
    using two_powi_add [of ?e 53] by (simp add: add.commute)
  have "2 ^ 52 \<le> ?m" using lo s unfolding e1 by (simp add: pos_le_divide_eq mult.commute)
  then have "of_int (2 ^ 52) \<le> ?m" by simp
  then have A: "2 ^ 52 \<le> round_half_even ?m" by (rule rhe_ge)
  have "?m \<le> 2 ^ 53" using hi s unfolding e2 by (simp add: pos_divide_le_eq mult.commute)
  then have "?m \<le> of_int (2 ^ 53)" by simp
  then have B: "round_half_even ?m \<le> 2 ^ 53" by (rule rhe_le)
  have "(of_int (2 ^ 52) :: rat) \<le> of_int (round_half_even ?m)"
    using A of_int_le_iff by blast
  then have "(of_int (2 ^ 52) :: rat) * 2 powi ?e \<le> of_int (round_half_even ?m) * 2 powi ?e"
    using s by (intro mult_right_mono) simp_all
  then have A': "(2::rat) powi ?e * 2 ^ 52 \<le> of_int (round_half_even ?m) * 2 powi ?e"
    by (simp add: mult.commute)
  have "(of_int (round_half_even ?m) :: rat) \<le> of_int (2 ^ 53)"
    using B of_int_le_iff by blast
  then have "(of_int (round_half_even ?m) :: rat) * 2 powi ?e \<le> of_int (2 ^ 53) * 2 powi ?e"
    using s by (intro mult_right_mono) simp_all
  then have B': "of_int (round_half_even ?m) * 2 powi ?e \<le> (2::rat) powi ?e * 2 ^ 53"
    by (simp add: mult.commute)
  show ?thesis using A' B' unfolding e1 e2 fl_pos_def Let_def by simp
qed

lemma ilog2_mono:
  assumes "0 < q" "q \<le> r"
  shows "ilog2 q \<le> ilog2 r"
proof (rule ccontr)
  assume "\<not> ilog2 q \<le> ilog2 r"
  then have "ilog2 r + 1 \<le> ilog2 q" by simp
  then have "(2::rat) powi (ilog2 r + 1) \<le> 2 powi (ilog2 q)" by (rule two_powi_mono)
  moreover have "r < 2 powi (ilog2 r + 1)" using ilog2_bounds [of r] assms by simp
  moreover have "2 powi (ilog2 q) \<le> q" using ilog2_bounds [of q] assms by simp
  ultimately show False using assms by linarith
qed

lemma fl_pos_mono:
  assumes "0 < q" "q \<le> r"
  shows "fl_pos q \<le> fl_pos r"
proof (cases "ilog2 q = ilog2 r")
  case True
  have s: "(2::rat) powi (ilog2 r - 52) > 0" by (rule two_powi_pos)
  have "q / 2 powi (ilog2 r - 52) \<le> r / 2 powi (ilog2 r - 52)"
    using assms s by (simp add: divide_right_mono)
  then have "round_half_even (q / 2 powi (ilog2 r - 52)) \<le> round_half_even (r / 2 powi (ilog2 r - 52))"
    by (rule rhe_mono)
  then have "(of_int (round_half_even (q / 2 powi (ilog2 r - 52))) :: rat)
      \<le> of_int (round_half_even (r / 2 powi (ilog2 r - 52)))"
    using of_int_le_iff by blast
  then show ?thesis using s True by (simp add: fl_pos_def Let_def)
next
  case False
  have r: "0 < r" using assms by simp
  from False ilog2_mono[OF assms] have "ilog2 q + 1 \<le> ilog2 r" by simp
  then have "(2::rat) powi (ilog2 q + 1) \<le> 2 powi (ilog2 r)" by (rule two_powi_mono)
  moreover have "fl_pos q \<le> 2 powi (ilog2 q + 1)" using fl_pos_bounds[OF assms(1)] by simp
  moreover have "2 powi (ilog2 r) \<le> fl_pos r" using fl_pos_bounds[OF r] by simp
  ultimately show ?thesis by linarith
qed

lemma fl_pos_gt0: "0 < q \<Longrightarrow> 0 < fl_pos q"
  using fl_pos_bounds [of q] two_powi_pos [of "ilog2 q"] by linarith

lemma fl_mono:
  assumes "q \<le> r"
  shows "fl q \<le> fl r"
proof -
  consider "r < 0" | "q < 0" "0 \<le> r" | "q = 0" | "0 < q" by linarith
  then show ?thesis
  proof cases
    case 1
    then have "0 < - r" "- r \<le> - q" using assms by simp_all
    then have "fl_pos (- r) \<le> fl_pos (- q)" by (rule fl_pos_mono)
    then show ?thesis using 1 assms by (simp add: fl_def)
  next
    case 2
    then have "0 < fl_pos (- q)" by (simp add: fl_pos_gt0)
    moreover have "0 \<le> fl r" using 2 fl_pos_gt0 [of r] by (auto simp: fl_def less_imp_le)
    ultimately show ?thesis using 2 by (simp add: fl_def)
  next
    case 3
    then show ?thesis using assms fl_pos_gt0 [of r] by (auto simp: fl_def less_imp_le)
  next
    case 4
    then show ?thesis using assms fl_pos_mono [of q r] by (simp add: fl_def)
  qed
qed

lemma fl_0: "fl 0 = 0" by (simp add: fl_def)

lemma fl_nonneg: "0 \<le> q \<Longrightarrow> 0 \<le> fl q"
  using fl_mono [of 0 q] by (simp add: fl_0)

lemma two_powi_less_cancel: "(2::rat) powi a < 2 powi b \<Longrightarrow> a < b"
  using two_powi_mono [of b a] by (cases "a < b") auto

lemma ilog2_unique:
  assumes "2 powi k \<le> q" "q < 2 powi (k + 1)"
  shows "ilog2 q = k"
proof -
  have q: "0 < q" using assms(1) two_powi_pos [of k] by linarith
  from ilog2_bounds [OF q] have "2 powi (ilog2 q) \<le> q" "q < 2 powi (ilog2 q + 1)" by auto
  then have "(2::rat) powi (ilog2 q) < 2 powi (k + 1)" "(2::rat) powi k < 2 powi (ilog2 q + 1)"
    using assms by linarith+
  then have "ilog2 q < k + 1" "k < ilog2 q + 1" by (auto dest: two_powi_less_cancel)
  then show ?thesis by simp
qed

lemma rhe_eqI:
  assumes "\<bar>x - of_int m\<bar> < 1 / 2"
  shows "round_half_even x = m"
proof (cases "of_int m \<le> x")
  case True
  then have "\<lfloor>x\<rfloor> = m" using assms by (intro floor_unique) linarith+
  then show ?thesis using assms True by (simp add: round_half_even_def Let_def)
next
  case False
  then have "\<lfloor>x\<rfloor> = m - 1" using assms by (intro floor_unique) (simp, linarith)+
  then show ?thesis using assms False by (simp add: round_half_even_def Let_def)
qed

lemma fl_eqI:
  assumes "2 powi (e + 52) \<le> q" "q < 2 powi (e + 53)" "\<bar>q / 2 powi e - of_int m\<bar> < 1 / 2"
  shows "fl q = of_int m * 2 powi e"
proof -
  have q: "0 < q" using assms(1) two_powi_pos [of "e + 52"] by linarith
  have "ilog2 q = e + 52" using assms(1,2) by (intro ilog2_unique) (simp_all add: add.commute add.left_commute)
  then show ?thesis using q rhe_eqI [OF assms(3)] by (simp add: fl_def fl_pos_def)
qed

lemma fl_eq_scaled:
  assumes "2 ^ 52 \<le> q * 2 ^ k" "q * 2 ^ k < 2 ^ 53" "\<bar>q * 2 ^ k - of_int m\<bar> < 1 / 2"
  shows "fl q = of_int m / 2 ^ k"
proof -
  have p: "(2::rat) powi (- int k) = 1 / 2 ^ k"
    by (simp add: power_int_def power_one_over inverse_eq_divide)
  have a: "(2::rat) powi (- int k + 52) = 2 ^ 52 / 2 ^ k"
    using two_powi_add [of "- int k" 52] p by simp
  have b: "(2::rat) powi (- int k + 53) = 2 ^ 53 / 2 ^ k"
    using two_powi_add [of "- int k" 53] p by simp
  have "fl q = of_int m * 2 powi (- int k)"
  proof (rule fl_eqI)
    show "2 powi (- int k + 52) \<le> q" unfolding a using assms(1) by (simp add: pos_divide_le_eq)
    show "q < 2 powi (- int k + 53)" unfolding b using assms(2) by (simp add: pos_less_divide_eq)
    show "\<bar>q / 2 powi (- int k) - of_int m\<bar> < 1 / 2" unfolding p using assms(3) by simp
  qed
  then show ?thesis unfolding p by simp
qed

subsection \<open>The values the statements below need\<close>

lemma fl_1: "fl (1) = 1"
  using fl_eq_scaled [of "1" 52 4503599627370496] by simp

lemma fl_102: "fl (102) = 102"
  using fl_eq_scaled [of "102" 46 7177611906121728] by simp

lemma fl_118: "fl (118) = 118"
  using fl_eq_scaled [of "118" 46 8303511812964352] by simp

lemma fl_126: "fl (126) = 126"
  using fl_eq_scaled [of "126" 46 8866461766385664] by simp

lemma fl_46: "fl (46) = 46"
  using fl_eq_scaled [of "46" 47 6473924464345088] by simp

lemma fl_234: "fl (234) = 234"
  using fl_eq_scaled [of "234" 45 8233143068786688] by simp

lemma fl_24: "fl (24) = 24"
  using fl_eq_scaled [of "24" 48 6755399441055744] by simp

lemma fl_220: "fl (220) = 220"
  using fl_eq_scaled [of "220" 45 7740561859543040] by simp

lemma fl_172: "fl (172) = 172"
  using fl_eq_scaled [of "172" 45 6051711999279104] by simp

lemma fl_258: "fl (258) = 258"
  using fl_eq_scaled [of "258" 44 4538783999459328] by simp


lemma fl_half: "fl (1 / 2) = 1 / 2"
  using fl_eq_scaled [of "1 / 2" 53 4503599627370496] by simp

lemma fl_59: "fl (59) = 59"
  using fl_eq_scaled [of "59" 47 8303511812964352] by simp

lemma fl_161: "fl (161) = 161"
  using fl_eq_scaled [of "161" 45 5664683906301952] by simp

lemma fl_23: "fl (23) = 23"
  using fl_eq_scaled [of "23" 48 6473924464345088] by simp

lemma fl_149: "fl (149) = 149"
  using fl_eq_scaled [of "149" 45 5242471441235968] by simp

lemma fl_12: "fl (12) = 12"
  using fl_eq_scaled [of "12" 49 6755399441055744] by simp

lemma fl_246: "fl (246) = 246"
  using fl_eq_scaled [of "246" 45 8655355533852672] by simp








lemma fl_15_16: "fl (15 / 16) = 15 / 16"
  using fl_eq_scaled [of "15 / 16" 53 8444249301319680] by simp

lemma fl_885_8: "fl (885 / 8) = 885 / 8"
  using fl_eq_scaled [of "885 / 8" 46 7784542324654080] by simp

lemma fl_1701_8: "fl (1701 / 8) = 1701 / 8"
  using fl_eq_scaled [of "1701 / 8" 45 7481077115387904] by simp

lemma fl_345_8: "fl (345 / 8) = 345 / 8"
  using fl_eq_scaled [of "345 / 8" 47 6069304185323520] by simp

lemma fl_1353_8: "fl (1353 / 8) = 1353 / 8"
  using fl_eq_scaled [of "1353 / 8" 45 5950556929523712] by simp

lemma fl_45_2: "fl (45 / 2) = 45 / 2"
  using fl_eq_scaled [of "45 / 2" 48 6333186975989760] by simp

lemma fl_513_2: "fl (513 / 2) = 513 / 2"
  using fl_eq_scaled [of "513 / 2" 44 4512395720392704] by simp










lemma fl_below_one: "fl (9007199254740991 / 9007199254740992) = 9007199254740991 / 9007199254740992"
  using fl_eq_scaled [of "9007199254740991 / 9007199254740992" 53 9007199254740991] by simp

lemma fl_near_one: "fl (1073741823 / 1073741824) = 1073741823 / 1073741824"
  using fl_eq_scaled [of "1073741823 / 1073741824" 53 9007199246352384] by simp

lemma fl_near_24: "fl (3221225469 / 134217728) = 3221225469 / 134217728"
  using fl_eq_scaled [of "3221225469 / 134217728" 48 6755399434764288] by simp

lemma fl_near_258: "fl (34628173821 / 134217728) = 34628173821 / 134217728"
  using fl_eq_scaled [of "34628173821 / 134217728" 44 4538783999066112] by simp

lemma fl_lit_0_23: "fl (23 / 100) = 8286623314361713 / 36028797018963968"
  using fl_eq_scaled [of "23 / 100" 55 8286623314361713] by simp

lemma fl_lit_0_15: "fl (3 / 20) = 5404319552844595 / 36028797018963968"
  using fl_eq_scaled [of "3 / 20" 55 5404319552844595] by simp

lemma fl_lit_0_7071: "fl (7071 / 10000) = 6368990593027355 / 9007199254740992"
  using fl_eq_scaled [of "7071 / 10000" 53 6368990593027355] by simp

lemma fl_lit_0_70711: "fl (70711 / 100000) = 6369080665019903 / 9007199254740992"
  using fl_eq_scaled [of "70711 / 100000" 53 6369080665019903] by simp

lemma fl_72: "fl (72) = 72"
  using fl_eq_scaled [of "72" 46 5066549580791808] by simp

lemma fl_72_sun: "fl (74579609829255417 / 4503599627370496) = 291326600895529 / 17592186044416"
  using fl_eq_scaled [of "74579609829255417 / 4503599627370496" 48 4661225614328464] by simp

lemma fl_72_ray: "fl (48638875975601355 / 4503599627370496) = 6079859496950169 / 562949953421312"
  using fl_eq_scaled [of "48638875975601355 / 4503599627370496" 49 6079859496950169] by simp

lemma fl_26: "fl (26) = 26"
  using fl_eq_scaled [of "26" 48 7318349394477056] by simp

lemma fl_26_diag: "fl (82796877709355615 / 4503599627370496) = 2587402428417363 / 140737488355328"
  using fl_eq_scaled [of "82796877709355615 / 4503599627370496" 48 5174804856834726] by simp

lemma fl_892: "fl (892) = 892"
  using fl_eq_scaled [of "892" 43 7846114975809536] by simp

lemma fl_892_sun: "fl (1847916999102661999 / 9007199254740992) = 7218425777744773 / 35184372088832"
  using fl_eq_scaled [of "1847916999102661999 / 9007199254740992" 45 7218425777744773] by simp

lemma fl_892_ray: "fl (1205163260284344685 / 9007199254740992) = 4707668985485721 / 35184372088832"
  using fl_eq_scaled [of "1205163260284344685 / 9007199254740992" 45 4707668985485721] by simp

lemma fl_215: "fl (215) = 215"
  using fl_eq_scaled [of "215" 45 7564639999098880] by simp

lemma fl_338: "fl (338) = 338"
  using fl_eq_scaled [of "338" 44 5946158883012608] by simp

lemma fl_215_diag: "fl (1369332977500881325 / 9007199254740992) = 2674478471681409 / 17592186044416"
  using fl_eq_scaled [of "1369332977500881325 / 9007199254740992" 45 5348956943362818] by simp

lemma fl_338_diag: "fl (1076359410221622995 / 4503599627370496) = 4204528946178215 / 17592186044416"
  using fl_eq_scaled [of "1076359410221622995 / 4503599627370496" 45 8409057892356430] by simp

lemma fl_338_claimed: "fl (1076374632388363607 / 4503599627370496) = 8409176815534091 / 35184372088832"
  using fl_eq_scaled [of "1076374632388363607 / 4503599627370496" 45 8409176815534091] by simp


section \<open>The compositing arithmetic\<close>

text \<open>
  Pillow computes a composed pixel in 32-bit integers. With 8-bit channels no intermediate
  value reaches \<open>2 ^ 31\<close> and the subtraction in \<open>coef2\<close> does not go below zero, so the
  computation on \<open>nat\<close> in \<open>composite_pixel\<close> is the one the machine integers carry out.
\<close>

lemma composite_fits_int32:
  fixes sr dr da sa :: "8 word"
  assumes "sa \<noteq> 0"
  defines "outa255 \<equiv> unat sa * 255 + unat da * (255 - unat sa)"
  defines "coef1 \<equiv> unat sa * 255 * 255 * 128 div outa255"
  shows "unat sa * 255 * 255 * 128 < 2 ^ 31"
    and "coef1 \<le> 255 * 128"
    and "unat sr * coef1 + unat dr * (255 * 128 - coef1) + 128 * 128 < 2 ^ 31"
    and "outa255 + 128 < 2 ^ 31"
proof -
  have b: "unat sa \<le> 255" "unat da \<le> 255" "unat sr \<le> 255" "unat dr \<le> 255"
    using unsigned_less [of sa, where ?'a = nat] unsigned_less [of da, where ?'a = nat]
      unsigned_less [of sr, where ?'a = nat] unsigned_less [of dr, where ?'a = nat]
    by simp_all
  have pos: "0 < unat sa" using assms(1) by (simp add: unat_gt_0)
  show "unat sa * 255 * 255 * 128 < 2 ^ 31" using b(1) by simp
  have le: "unat sa * 255 \<le> outa255" by (simp add: outa255_def)
  have "coef1 = (255 * 128 * (unat sa * 255)) div outa255"
    by (simp add: coef1_def mult_ac)
  also have "\<dots> \<le> (255 * 128 * (unat sa * 255)) div (unat sa * 255)"
    using pos le by (intro div_le_mono2) simp_all
  also have "\<dots> = 255 * 128" using pos by simp
  finally show c: "coef1 \<le> 255 * 128" .
  have "unat sr * coef1 \<le> 255 * coef1" using b(3) by (rule mult_le_mono1)
  moreover have "unat dr * (255 * 128 - coef1) \<le> 255 * (255 * 128 - coef1)"
    using b(4) by (rule mult_le_mono1)
  moreover have "255 * coef1 + 255 * (255 * 128 - coef1) = 255 * (255 * 128)"
    using c by (simp flip: distrib_left)
  ultimately have "unat sr * coef1 + unat dr * (255 * 128 - coef1) \<le> 255 * (255 * 128)"
    by linarith
  then show "unat sr * coef1 + unat dr * (255 * 128 - coef1) + 128 * 128 < 2 ^ 31" by simp
  have "unat da * (255 - unat sa) \<le> 255 * 255"
    using b(2) by (intro mult_le_mono) simp_all
  then show "outa255 + 128 < 2 ^ 31" using b(1) by (simp add: outa255_def)
qed


section \<open>The gradient loops\<close>

lemma for_each_append:
  "for_each (xs @ ys) body s =
     (case for_each xs body s of Inl e \<Rightarrow> Inl e | Inr s' \<Rightarrow> for_each ys body s')"
  by (induction xs arbitrary: s) (auto split: sum.splits)

lemma for_each_snoc:
  "for_each xs body s = Inr s' \<Longrightarrow> for_each (xs @ [x]) body s = body x s'"
  by (simp add: for_each_append split: sum.splits)

lemma gradient_color_ink:
  "sz \<noteq> 0 \<Longrightarrow> \<exists>c. gradient_color sz x y = Inr c \<and> getink c = gradient_ink sz x y"
  by (simp add: gradient_color_def truediv_def gradient_ink_def getink_def Let_def clip8_def)

lemma putpixel_in_range:
  assumes "r < length h" "h ! r = \<lparr>width = n, height = n', data = d\<rparr>" "x < n" "y < n'"
  shows "putpixel r (int x, int y) c h =
           Inr (h[r := \<lparr>width = n, height = n', data = d[y * n + x := getink c]\<rparr>])"
  using assms by (simp add: putpixel_def Let_def)

lemma row_index_bound:
  assumes "y < n" "x < n"
  shows "y * n + x < n * (n::nat)"
proof -
  have "y * n + x < y * n + n" using assms by simp
  also have "\<dots> = Suc y * n" by simp
  also have "\<dots> \<le> n * n" using assms by (intro mult_le_mono1) simp
  finally show ?thesis .
qed

lemma update_at_boundary:
  assumes "length A = k" "k + length B < length d"
  shows "(A @ B @ drop (k + length B) d)[k + length B := v]
           = A @ (B @ [v]) @ drop (k + Suc (length B)) d"
proof -
  have "drop (k + length B) d = d ! (k + length B) # drop (Suc (k + length B)) d"
    using assms by (simp add: Cons_nth_drop_Suc)
  then show ?thesis using assms by (simp add: list_update_append)
qed

lemma gradient_row:
  assumes r: "r < length h"
    and im: "h ! r = \<lparr>width = n, height = n, data = d\<rparr>"
    and len: "length d = n * n"
    and y: "y < n"
    and m: "m \<le> n"
  shows "for_each (map int [0..<m])
           (\<lambda>x h'. case gradient_color (int n) x (int y) of
                      Inl e \<Rightarrow> Inl e
                    | Inr c \<Rightarrow> putpixel r (x, int y) c h') h
         = Inr (h[r := \<lparr>width = n, height = n,
                       data = take (y * n) d
                              @ map (\<lambda>x. gradient_ink (int n) (int x) (int y)) [0..<m]
                              @ drop (y * n + m) d\<rparr>])"
  using m
proof (induction m)
  case 0
  have "h[r := \<lparr>width = n, height = n, data = d\<rparr>] = h"
    using im by (metis list_update_id)
  then show ?case by simp
next
  case (Suc m)
  let ?row = "map (\<lambda>x. gradient_ink (int n) (int x) (int y)) [0..<m]"
  let ?h1 = "h[r := \<lparr>width = n, height = n,
                     data = take (y * n) d @ ?row @ drop (y * n + m) d\<rparr>]"
  from Suc have mn: "m < n" and IH: "for_each (map int [0..<m])
           (\<lambda>x h'. case gradient_color (int n) x (int y) of
                      Inl e \<Rightarrow> Inl e
                    | Inr c \<Rightarrow> putpixel r (x, int y) c h') h = Inr ?h1"
    by simp_all
  have n0: "int n \<noteq> 0" using mn by simp
  obtain c where c: "gradient_color (int n) (int m) (int y) = Inr c"
    and ink: "getink c = gradient_ink (int n) (int m) (int y)"
    using gradient_color_ink [OF n0] by blast
  have idx: "y * n + m < length d" using row_index_bound [OF y mn] len by simp
  have lenA: "length (take (y * n) d) = y * n" using idx by simp
  have r1: "r < length ?h1" using r by simp
  have im1: "?h1 ! r = \<lparr>width = n, height = n,
                          data = take (y * n) d @ ?row @ drop (y * n + m) d\<rparr>"
    using r by simp
  have upd: "(take (y * n) d @ ?row @ drop (y * n + m) d)[y * n + m := getink c]
        = take (y * n) d @ (?row @ [getink c]) @ drop (y * n + Suc m) d"
    using update_at_boundary [of "take (y * n) d" "y * n" ?row d "getink c"] lenA idx
    by simp
  have "[0..<Suc m] = [0..<m] @ [m]" by simp
  then have "for_each (map int [0..<Suc m])
           (\<lambda>x h'. case gradient_color (int n) x (int y) of
                      Inl e \<Rightarrow> Inl e
                    | Inr c \<Rightarrow> putpixel r (x, int y) c h') h
        = putpixel r (int m, int y) c ?h1"
    using for_each_snoc [OF IH, of "int m"] c by simp
  also have "\<dots> = Inr (?h1[r := \<lparr>width = n, height = n,
        data = (take (y * n) d @ ?row @ drop (y * n + m) d)[y * n + m := getink c]\<rparr>])"
    by (rule putpixel_in_range [OF r1 im1 mn y])
  finally show ?case unfolding upd by (simp add: ink)
qed

lemma length_rows:
  "length (concat (map (\<lambda>y. map (f y) [0..<n]) [0..<m])) = m * n"
  by (induction m) simp_all

lemma gradient_rows:
  assumes r: "r < length h"
    and im: "h ! r = \<lparr>width = n, height = n, data = d\<rparr>"
    and len: "length d = n * n"
    and m: "m \<le> n"
  shows "for_each (map int [0..<m])
           (\<lambda>y. for_each (py_range (int n))
              (\<lambda>x h'. case gradient_color (int n) x y of
                         Inl e \<Rightarrow> Inl e
                       | Inr c \<Rightarrow> putpixel r (x, y) c h')) h
         = Inr (h[r := \<lparr>width = n, height = n,
                       data = concat (map (\<lambda>y. map (\<lambda>x. gradient_ink (int n) (int x) (int y)) [0..<n])
                                        [0..<m])
                              @ drop (m * n) d\<rparr>])"
  using m
proof (induction m)
  case 0
  have "h[r := \<lparr>width = n, height = n, data = d\<rparr>] = h"
    using im by (metis list_update_id)
  then show ?case by simp
next
  case (Suc m)
  let ?rows = "concat (map (\<lambda>y. map (\<lambda>x. gradient_ink (int n) (int x) (int y)) [0..<n]) [0..<m])"
  let ?d1 = "?rows @ drop (m * n) d"
  let ?h1 = "h[r := \<lparr>width = n, height = n, data = ?d1\<rparr>]"
  let ?body = "\<lambda>y. for_each (py_range (int n))
              (\<lambda>x h'. case gradient_color (int n) x y of
                         Inl e \<Rightarrow> Inl e
                       | Inr c \<Rightarrow> putpixel r (x, y) c h')"
  from Suc have mn: "m < n" and IH: "for_each (map int [0..<m]) ?body h = Inr ?h1"
    by simp_all
  have lr: "length ?rows = m * n" by (rule length_rows)
  have mn': "m * n + n \<le> n * n"
  proof -
    have "Suc m * n \<le> n * n" using mn by (intro mult_le_mono1) simp
    then show ?thesis by (simp add: add.commute)
  qed
  have len1: "length ?d1 = n * n" using lr len mn' by simp
  have r1: "r < length ?h1" using r by simp
  have im1: "?h1 ! r = \<lparr>width = n, height = n, data = ?d1\<rparr>" using r by simp
  have tk: "take (m * n) ?d1 = ?rows" using lr by simp
  have dr: "drop (m * n + n) ?d1 = drop (Suc m * n) d" using lr by (simp add: add.commute)
  have "[0..<Suc m] = [0..<m] @ [m]" by simp
  then have "for_each (map int [0..<Suc m]) ?body h = ?body (int m) ?h1"
    using for_each_snoc [OF IH, of "int m"] by simp
  also have "\<dots> = Inr (?h1[r := \<lparr>width = n, height = n,
        data = take (m * n) ?d1 @ map (\<lambda>x. gradient_ink (int n) (int x) (int m)) [0..<n]
               @ drop (m * n + n) ?d1\<rparr>])"
    unfolding py_range_def nat_int
    by (rule gradient_row [OF r1 im1 len1 mn order_refl])
  finally show ?case unfolding tk dr by simp
qed

lemma gradient_background_eq:
  assumes r: "r < length h"
    and im: "h ! r = \<lparr>width = n, height = n, data = d\<rparr>"
    and len: "length d = n * n"
  shows "gradient_background r (int n) h
         = Inr (h[r := \<lparr>width = n, height = n, data = gradient_data n\<rparr>])"
  using gradient_rows [OF r im len order_refl] len
  by (simp add: gradient_background_def py_range_def gradient_data_def)

lemma nth_rows:
  assumes "y < m" "x < n"
  shows "concat (map (\<lambda>y. map (f y) [0..<n]) [0..<m]) ! (y * n + x) = f y x"
  using assms(1)
proof (induction m)
  case 0
  then show ?case by simp
next
  case (Suc m)
  show ?case
  proof (cases "y < m")
    case True
    then have "Suc y * n \<le> m * n" by (intro mult_le_mono1) simp
    then have "y * n + x < m * n" using assms(2) by simp
    then show ?thesis using Suc.IH [OF True] by (simp add: nth_append length_rows)
  next
    case False
    with Suc.prems have "y = m" by simp
    then show ?thesis using assms(2) by (simp add: nth_append length_rows)
  qed
qed

lemma length_gradient_data: "length (gradient_data n) = n * n"
  by (simp add: gradient_data_def length_rows)

lemma nth_gradient_data:
  "x < n \<Longrightarrow> y < n \<Longrightarrow> gradient_data n ! (y * n + x) = gradient_ink (int n) (int x) (int y)"
  by (simp add: gradient_data_def nth_rows)


section \<open>What \<^verbatim>\<open>create_icon\<close> returns\<close>

lemma draw_ellipse_ordered:
  "x0 \<le> x1 \<Longrightarrow> y0 \<le> y1 \<Longrightarrow>
   draw_ellipse S (Draw r) (x0, y0, x1, y1) c h
     = Inr (h[r := paint (ellipse_cover S (x0, y0, x1, y1)) (getink c) (h ! r)])"
  by (simp add: draw_ellipse_def)

lemma scaled_nonneg:
  assumes "0 \<le> n" "0 \<le> q"
  shows "0 \<le> py_int (fmul (float_of_int n) (fl q))"
proof -
  have "0 \<le> fl (of_int n)" using assms by (intro fl_nonneg) simp
  moreover have "0 \<le> fl q" using assms by (intro fl_nonneg)
  ultimately have "0 \<le> fl (fl (of_int n) * fl q)" by (intro fl_nonneg) simp
  then show ?thesis by (simp add: py_int_def fmul_def float_of_int_def)
qed

lemma length_draw_line: "length (draw_line S d b c w h) = length h"
  by (cases d) (simp add: draw_line_def)

lemma nth_draw_line_other: "r' \<noteq> r \<Longrightarrow> draw_line S (Draw r) b c w h ! r' = h ! r'"
  by (simp add: draw_line_def)

lemma fold_frame:
  assumes "\<And>x h. length (f x h) = length h \<and> f x h ! r' = h ! r'"
  shows "length (fold f xs h) = length (h :: heap) \<and> fold f xs h ! r' = h ! r'"
  using assms by (induction xs arbitrary: h) simp_all

lemma draw_rays_frame:
  assumes "r' \<noteq> r"
  shows "length (draw_rays S (Draw r) c sr rl rw h) = length h
         \<and> draw_rays S (Draw r) c sr rl rw h ! r' = h ! r'"
  unfolding draw_rays_def
proof (rule fold_frame)
  fix i h
  obtain a b c' d where e: "ray_endpoints i c sr rl = (a, b, c', d)"
    by (cases "ray_endpoints i c sr rl") auto
  have "length (fold (\<lambda>w. draw_line S (Draw r) (a + w, b + w, c' + w, d + w) (255, 215, 0, 255) 1)
                  (py_range rw) h) = length h
      \<and> fold (\<lambda>w. draw_line S (Draw r) (a + w, b + w, c' + w, d + w) (255, 215, 0, 255) 1)
                  (py_range rw) h ! r' = h ! r'"
    by (rule fold_frame) (simp add: length_draw_line nth_draw_line_other assms)
  then show "length (case ray_endpoints i c sr rl of
                 (start_x, start_y, end_x, end_y) \<Rightarrow>
                   fold (\<lambda>w. draw_line S (Draw r) (start_x + w, start_y + w, end_x + w, end_y + w)
                          (255, 215, 0, 255) 1) (py_range rw) h) = length h
      \<and> (case ray_endpoints i c sr rl of
                 (start_x, start_y, end_x, end_y) \<Rightarrow>
                   fold (\<lambda>w. draw_line S (Draw r) (start_x + w, start_y + w, end_x + w, end_y + w)
                          (255, 215, 0, 255) 1) (py_range rw) h) ! r' = h ! r'"
    by (simp add: e)
qed

lemma length_draw_rays: "length (draw_rays S (Draw r) c sr rl rw h) = length h"
  using draw_rays_frame [of "Suc r" r] by simp

lemma nth_draw_rays_other:
  "r' \<noteq> r \<Longrightarrow> draw_rays S (Draw r) c sr rl rw h ! r' = h ! r'"
  using draw_rays_frame [of r' r] by simp

lemma first_four_steps:
  fixes n :: nat
  assumes n: "int n < 536870911"
  defines "grad \<equiv> \<lparr>width = n, height = n, data = gradient_data n\<rparr>"
    and "glass \<equiv> \<lparr>width = n, height = n, data = glass_data n\<rparr>"
  shows "Image_new (int n, int n) (0, 0, 0, 0) h
           = Inr (length h, h @ [\<lparr>width = n, height = n, data = replicate (n * n) (getink (0, 0, 0, 0))\<rparr>])"
    and "gradient_background (length h) (int n)
           (h @ [\<lparr>width = n, height = n, data = replicate (n * n) (getink (0, 0, 0, 0))\<rparr>])
           = Inr (h @ [grad])"
    and "Image_new (int n, int n) (255, 255, 255, 25) (h @ [grad])
           = Inr (Suc (length h), h @ [grad, glass])"
    and "alpha_composite (length h) (Suc (length h)) (h @ [grad, glass])
           = Inr (Suc (Suc (length h)), h @ [grad, glass, composed n])"
proof -
  show "Image_new (int n, int n) (0, 0, 0, 0) h
           = Inr (length h, h @ [\<lparr>width = n, height = n, data = replicate (n * n) (getink (0, 0, 0, 0))\<rparr>])"
    using n by (simp add: Image_new_def)
  show "gradient_background (length h) (int n)
           (h @ [\<lparr>width = n, height = n, data = replicate (n * n) (getink (0, 0, 0, 0))\<rparr>])
           = Inr (h @ [grad])"
    using gradient_background_eq [of "length h"
        "h @ [\<lparr>width = n, height = n, data = replicate (n * n) (getink (0, 0, 0, 0))\<rparr>]"
        n "replicate (n * n) (getink (0, 0, 0, 0))"]
    by (simp add: grad_def)
  show "Image_new (int n, int n) (255, 255, 255, 25) (h @ [grad])
           = Inr (Suc (length h), h @ [grad, glass])"
    using n by (simp add: Image_new_def glass_def glass_data_def)
  show "alpha_composite (length h) (Suc (length h)) (h @ [grad, glass])
           = Inr (Suc (Suc (length h)), h @ [grad, glass, composed n])"
    by (simp add: alpha_composite_def Let_def nth_append grad_def glass_def composed_def)
qed

lemma gradient_step_result:
  assumes "0 \<le> sz" "sz < 536870911"
  shows "gradient_step sz h
         = Inr (length h, h @ [\<lparr>width = nat sz, height = nat sz, data = gradient_data (nat sz)\<rparr>])"
proof -
  obtain n where n: "sz = int n" using assms by (metis nat_0_le)
  show ?thesis using assms(2) unfolding n gradient_step_def by (simp add: first_four_steps)
qed

lemma gradient_and_glass_result:
  assumes "0 \<le> sz" "sz < 536870911"
  shows "gradient_and_glass sz h
         = Inr (length h + 2,
                h @ [\<lparr>width = nat sz, height = nat sz, data = gradient_data (nat sz)\<rparr>,
                     \<lparr>width = nat sz, height = nat sz, data = glass_data (nat sz)\<rparr>,
                     composed (nat sz)])"
proof -
  obtain n where n: "sz = int n" using assms by (metis nat_0_le)
  show ?thesis using assms(2) unfolding n gradient_and_glass_def by (simp add: first_four_steps)
qed

lemma create_icon_frame:
  assumes "0 \<le> sz" "sz < 536870911"
  shows "\<exists>hf. create_icon S sz h = Inr (length h + 2, hf)
           \<and> length hf = length h + 3
           \<and> (\<forall>r < length h + 3. r \<noteq> length h \<longrightarrow>
                 hf ! r = (h @ [\<lparr>width = nat sz, height = nat sz, data = gradient_data (nat sz)\<rparr>,
                               \<lparr>width = nat sz, height = nat sz, data = glass_data (nat sz)\<rparr>,
                               composed (nat sz)]) ! r)"
proof -
  obtain n where n: "sz = int n" using assms by (metis nat_0_le)
  have sun: "0 \<le> py_int (fmul (float_of_int (int n)) (fl (23 / 100)))"
    by (rule scaled_nonneg) simp_all
  have hl: "0 \<le> py_int (fmul (float_of_int (int n)) (fl (8 / 100)))"
    by (rule scaled_nonneg) simp_all
  show ?thesis
    using assms(2) unfolding n create_icon_def
    using sun hl
    by (auto simp add: first_four_steps ImageDraw_Draw_def Let_def draw_ellipse_ordered
        length_draw_rays nth_draw_rays_other nth_append nth_Cons')
qed

lemma returned_create_icon:
  "0 \<le> sz \<Longrightarrow> sz < 536870911 \<Longrightarrow>
   returned (create_icon S sz h) = Inr (composed (nat sz))"
  using create_icon_frame [of sz S h] by (auto simp: returned_def nth_append)

lemma returned_gradient_step:
  "0 \<le> sz \<Longrightarrow> sz < 536870911 \<Longrightarrow>
   returned (gradient_step sz h)
     = Inr \<lparr>width = nat sz, height = nat sz, data = gradient_data (nat sz)\<rparr>"
  by (simp add: gradient_step_result returned_def)

lemma returned_gradient_and_glass:
  "0 \<le> sz \<Longrightarrow> sz < 536870911 \<Longrightarrow>
   returned (gradient_and_glass sz h) = Inr (composed (nat sz))"
  by (simp add: gradient_and_glass_result returned_def nth_append)

lemma create_icon_negative: "sz < 0 \<Longrightarrow> create_icon S sz h = Inl ValueError"
  by (simp add: create_icon_def Image_new_def)

lemma Image_new_oversize:
  "536870911 \<le> sz \<Longrightarrow>
   Image_new (sz, sz) c h = Inl (if 2 ^ 31 \<le> sz then OverflowError else MemoryError)"
  by (simp add: Image_new_def)

lemma create_icon_oversize:
  "536870911 \<le> sz \<Longrightarrow>
   create_icon S sz h = Inl (if 2 ^ 31 \<le> sz then OverflowError else MemoryError)"
  by (simp add: create_icon_def Image_new_oversize)

lemma gradient_step_oversize:
  "536870911 \<le> sz \<Longrightarrow>
   gradient_step sz h = Inl (if 2 ^ 31 \<le> sz then OverflowError else MemoryError)"
  by (simp add: gradient_step_def Image_new_oversize)

lemma gradient_and_glass_oversize:
  "536870911 \<le> sz \<Longrightarrow>
   gradient_and_glass sz h = Inl (if 2 ^ 31 \<le> sz then OverflowError else MemoryError)"
  by (simp add: gradient_and_glass_def Image_new_oversize)

lemma gradient_and_glass_negative: "sz < 0 \<Longrightarrow> gradient_and_glass sz h = Inl ValueError"
  by (simp add: gradient_and_glass_def Image_new_def)

lemma create_icon_returns:
  "returned (create_icon S sz h) = Inr im \<Longrightarrow> 0 \<le> sz \<and> sz < 536870911"
  using create_icon_negative [of sz S h] create_icon_oversize [of sz S h]
  by (cases "sz < 0"; cases "536870911 \<le> sz") (auto simp: returned_def)

lemma gradient_step_returns:
  "returned (gradient_step sz h) = Inr im \<Longrightarrow> 0 \<le> sz \<and> sz < 536870911"
  using gradient_step_oversize [of sz h]
  by (cases "sz < 0"; cases "536870911 \<le> sz")
    (auto simp: returned_def gradient_step_def Image_new_def)

lemma getpixel_gradient:
  assumes "0 \<le> x" "x < int n" "0 \<le> y" "y < int n"
  shows "getpixel \<lparr>width = n, height = n, data = gradient_data n\<rparr> (x, y)
         = Inr (gradient_ink (int n) x y)"
proof -
  obtain a b where ab: "x = int a" "y = int b" using assms by (metis nat_0_le)
  then have "a < n" "b < n" using assms by simp_all
  then show ?thesis unfolding ab by (simp add: getpixel_def nth_gradient_data)
qed

lemma getpixel_composed:
  assumes "0 \<le> x" "x < int n" "0 \<le> y" "y < int n"
  shows "getpixel (composed n) (x, y)
         = Inr (composite_pixel (gradient_ink (int n) x y) (getink (255, 255, 255, 25)))"
proof -
  obtain a b where ab: "x = int a" "y = int b" using assms by (metis nat_0_le)
  then have lt: "a < n" "b < n" using assms by simp_all
  have i: "b * n + a < n * n" by (rule row_index_bound [OF lt(2) lt(1)])
  show ?thesis unfolding ab using lt i
    by (simp add: getpixel_def composed_def glass_data_def length_gradient_data nth_gradient_data)
qed

lemma pixel_of_create_icon:
  assumes "0 \<le> x" "x < sz" "0 \<le> y" "y < sz" "sz < 536870911"
  shows "pixel_of (returned (create_icon S sz h)) (x, y)
         = Inr (composite_pixel (gradient_ink sz x y) (getink (255, 255, 255, 25)))"
  using assms getpixel_composed [of x "nat sz" y]
  by (simp add: returned_create_icon pixel_of_def)

lemma pixel_of_gradient_step:
  assumes "0 \<le> x" "x < sz" "0 \<le> y" "y < sz" "sz < 536870911"
  shows "pixel_of (returned (gradient_step sz h)) (x, y) = Inr (gradient_ink sz x y)"
  using assms getpixel_gradient [of x "nat sz" y]
  by (simp add: returned_gradient_step pixel_of_def)

lemma glass_ink: "getink (255, 255, 255, 25) = (255, 255, 255, 25)"
  by (simp add: getink_def clip8_def)

lemma composite_opaque:
  "\<exists>r' g' b'. composite_pixel (r, g, b, 255) (255, 255, 255, 25) = (r', g', b', 255)"
  by (simp add: composite_pixel_def shift_for_div255_def Let_def)

lemma gradient_ink_half:
  assumes "sz \<noteq> 0" "x + y = sz"
  shows "gradient_ink sz x y = (161, 149, 246, 255)"
proof -
  have "(of_int (x + y) :: rat) / of_int (2 * sz) = 1 / 2" using assms by simp
  then have g: "fl (of_int (x + y) / of_int (2 * sz)) = 1 / 2" by (simp only: fl_half)
  show ?thesis
    unfolding gradient_ink_def g
    by (simp add: Let_def fmul_def fadd_def float_of_int_def py_int_def clip8_def
        fl_118 fl_59 fl_102 fl_161 fl_46 fl_23 fl_126 fl_149 fl_24 fl_12 fl_234 fl_246)
qed

lemma composite_half:
  "composite_pixel (161, 149, 246, 255) (255, 255, 255, 25) = (170, 159, 247, 255)"
  by (simp add: composite_pixel_def shift_for_div255_def Let_def)

lemma channel_range:
  assumes g: "0 \<le> g" "g \<le> 1"
    and c: "fl (of_int a) = of_int a" "fl (of_int b) = of_int b"
           "fl (of_int (a + b)) = of_int (a + b)"
    and ab: "0 \<le> a" "0 \<le> b"
  shows "a \<le> py_int (fadd (float_of_int a) (fmul g (float_of_int b)))
         \<and> py_int (fadd (float_of_int a) (fmul g (float_of_int b))) \<le> a + b"
proof -
  let ?p = "fl (g * of_int b)"
  have b0: "(0::rat) \<le> of_int b" using ab by simp
  have "0 \<le> g * of_int b" using g b0 by simp
  then have p0: "0 \<le> ?p" by (rule fl_nonneg)
  have "g * of_int b \<le> 1 * of_int b" using g b0 by (intro mult_right_mono) simp_all
  then have "?p \<le> fl (of_int b)" using fl_mono [of "g * of_int b" "of_int b"] by simp
  then have p1: "?p \<le> of_int b" using c by simp
  let ?s = "fl (of_int a + ?p)"
  have "fl (of_int a) \<le> ?s" using p0 by (intro fl_mono) simp
  then have s0: "of_int a \<le> ?s" using c by simp
  have "?s \<le> fl (of_int (a + b))" using p1 by (intro fl_mono) simp
  then have s1: "?s \<le> of_int (a + b)" using c by simp
  have nn: "0 \<le> ?s" using s0 ab by (meson of_int_0_le_iff order_trans)
  have "a \<le> \<lfloor>?s\<rfloor>" using s0 by (simp add: le_floor_iff)
  moreover have "\<lfloor>?s\<rfloor> \<le> a + b" using s1 floor_mono [of ?s "of_int (a + b)"] by simp
  ultimately show ?thesis
    using nn by (simp add: py_int_def fadd_def fmul_def float_of_int_def c)
qed

lemma gradient_value_range:
  assumes "0 < sz" "0 \<le> x" "x < sz" "0 \<le> y" "y < sz"
  shows "0 \<le> fl (of_int (x + y) / of_int (2 * sz))"
    and "fl (of_int (x + y) / of_int (2 * sz)) \<le> 1"
    and "sz \<le> 2 ^ 53 \<Longrightarrow> fl (of_int (x + y) / of_int (2 * sz)) < 1"
proof -
  let ?q = "(of_int (x + y) :: rat) / of_int (2 * sz)"
  have pos: "(0::rat) < of_int (2 * sz)" using assms by simp
  have q0: "0 \<le> ?q" using assms by simp
  then show "0 \<le> fl ?q" by (rule fl_nonneg)
  have "x + y \<le> 2 * sz" using assms by simp
  then have "(of_int (x + y) :: rat) \<le> of_int (2 * sz)" by (simp only: of_int_le_iff)
  then have "?q \<le> 1" using pos by (simp only: pos_divide_le_eq mult_1)
  then show "fl ?q \<le> 1" using fl_mono [of ?q 1] fl_1 by simp
  assume big: "sz \<le> 2 ^ 53"
  have xy: "x + y \<le> 2 * sz - 2" using assms by simp
  have "(of_int (x + y) :: rat) * 2 ^ 53 \<le> of_int (2 * sz) * (2 ^ 53 - 1)"
  proof -
    have "(x + y) * 2 ^ 53 \<le> (2 * sz - 2) * 2 ^ 53" using xy by simp
    also have "\<dots> \<le> (2 * sz) * (2 ^ 53 - 1)" using big by simp
    finally have "(x + y) * 2 ^ 53 \<le> (2 * sz) * (2 ^ 53 - 1)" .
    then have "(of_int ((x + y) * 2 ^ 53) :: rat) \<le> of_int ((2 * sz) * (2 ^ 53 - 1))"
      by (simp only: of_int_le_iff)
    then show ?thesis by simp
  qed
  then have "?q \<le> (2 ^ 53 - 1) / 2 ^ 53"
    using pos by (simp add: field_simps)
  then have "fl ?q \<le> fl ((2 ^ 53 - 1) / 2 ^ 53)" by (rule fl_mono)
  also have "\<dots> = (2 ^ 53 - 1) / 2 ^ 53" using fl_below_one by simp
  also have "\<dots> < 1" by simp
  finally show "fl ?q < 1" .
qed

lemma py_int_eqI:
  assumes "of_int k \<le> x" "x < of_int k + 1" "0 \<le> k"
  shows "py_int x = k"
proof -
  have "\<lfloor>x\<rfloor> = k" using assms by (intro floor_unique) simp_all
  moreover have "0 \<le> x" using assms by (meson of_int_0_le_iff order_trans)
  ultimately show ?thesis by (simp add: py_int_def)
qed

lemma composed_0: "composed 0 = \<lparr>width = 0, height = 0, data = []\<rparr>"
  by (simp add: composed_def gradient_data_def glass_data_def)

lemma clip8_min: "0 < v \<Longrightarrow> clip8 v = word_of_int (min 255 v)"
proof -
  assume v: "0 < v"
  consider "v < 255" | "v = 255" | "255 < v" by linarith
  then show ?thesis using v by cases (simp_all add: clip8_def)
qed

lemma clip8_id: "0 < v \<Longrightarrow> v < 256 \<Longrightarrow> clip8 v = word_of_int v"
  by (simp add: clip8_def)

lemma float_consts:
  "float_of_int 102 = 102" "float_of_int 118 = 118" "float_of_int 126 = 126"
  "float_of_int 46 = 46" "float_of_int 234 = 234" "float_of_int 24 = 24"
  by (simp_all add: float_of_int_def fl_102 fl_118 fl_126 fl_46 fl_234 fl_24)

lemma gradient_color_16_corner: "gradient_color 16 15 15 = Inr (212, 169, 256, 255)"
proof -
  have r: "py_int (fl (102 + fl (885 / 8))) = 212"
    by (rule py_int_eqI) (simp_all add: fl_885_8 fl_1701_8)
  have gr: "py_int (fl (126 + fl (345 / 8))) = 169"
    by (rule py_int_eqI) (simp_all add: fl_345_8 fl_1353_8)
  have b: "py_int (fl (234 + fl (45 / 2))) = 256"
    by (rule py_int_eqI) (simp_all add: fl_45_2 fl_513_2)
  show ?thesis
    by (simp add: gradient_color_def truediv_def Let_def fadd_def fmul_def float_consts
        fl_15_16 r gr b)
qed

lemma gradient_ink_color:
  "gradient_color sz x y = Inr c \<Longrightarrow> gradient_ink sz x y = getink c"
  by (auto simp: gradient_color_def truediv_def gradient_ink_def getink_def Let_def clip8_def
      split: if_splits)

lemma gradient_ink_origin:
  assumes "sz \<noteq> 0"
  shows "gradient_ink sz 0 0 = (102, 126, 234, 255)"
  by (simp add: gradient_ink_def Let_def fl_0 fmul_def fadd_def float_consts py_int_def
      clip8_def fl_102 fl_126 fl_234)







lemma blue_below_258:
  assumes "0 < sz" "sz < 536870911" "0 \<le> x" "x < sz" "0 \<le> y" "y < sz"
  shows "py_int (fadd 234 (fmul (fl (of_int (x + y) / of_int (2 * sz))) 24)) \<le> 257"
proof -
  let ?q = "(of_int (x + y) :: rat) / of_int (2 * sz)"
  have pos: "(0::rat) < of_int (2 * sz)" using assms by simp
  have "1073741824 * (x + y) \<le> 1073741823 * (2 * sz)" using assms by simp
  then have "(of_int (1073741824 * (x + y)) :: rat) \<le> of_int (1073741823 * (2 * sz))"
    by (simp only: of_int_le_iff)
  then have "?q \<le> 1073741823 / 1073741824" using pos by (simp add: field_simps)
  then have "fl ?q \<le> fl (1073741823 / 1073741824)" by (rule fl_mono)
  then have "fl ?q * 24 \<le> fl (1073741823 / 1073741824) * 24" by simp
  then have "fl (fl ?q * 24) \<le> fl (fl (1073741823 / 1073741824) * 24)" by (rule fl_mono)
  then have "234 + fl (fl ?q * 24) \<le> 234 + fl (fl (1073741823 / 1073741824) * 24)" by simp
  then have "fl (234 + fl (fl ?q * 24))
      \<le> fl (234 + fl (fl (1073741823 / 1073741824) * 24))" by (rule fl_mono)
  moreover have "fl (234 + fl (fl (1073741823 / 1073741824) * 24)) < 258"
    by (simp add: fl_near_one fl_near_24 fl_near_258)
  ultimately have lt: "fl (234 + fl (fl ?q * 24)) < 258" by simp
  have g0: "0 \<le> fl ?q" using gradient_value_range(1) [OF assms(1) assms(3-6)] .
  then have "0 \<le> fl (fl ?q * 24)" by (intro fl_nonneg) simp
  then have "0 \<le> fl (234 + fl (fl ?q * 24))" by (intro fl_nonneg) simp
  moreover have "\<lfloor>fl (234 + fl (fl ?q * 24))\<rfloor> < 258" using lt by (simp add: floor_less_iff)
  ultimately show ?thesis by (simp add: py_int_def fadd_def fmul_def)
qed

lemma create_icon_Inr_size:
  "create_icon S sz h = Inr res \<Longrightarrow> 0 \<le> sz \<and> sz < 536870911"
  using create_icon_negative [of sz S h] create_icon_oversize [of sz S h]
  by (cases "sz < 0"; cases "536870911 \<le> sz") auto


section \<open>The claims\<close>

text \<open>
  In every statement below \<open>S\<close> is the rasteriser and \<open>h\<close> the store in which the call
  starts; both are arbitrary. \<open>returned\<close> is the image a call hands back and \<open>pixel_of\<close> reads
  one of its pixels.
\<close>

text \<open>
  \<^bold>\<open>C1\<close> (the sun disc of the returned image is opaque gold; the centre pixel of
  \<open>create_icon(72)\<close> is \<open>(255, 215, 0, 255)\<close>). The code does not do this. The centre
  \<open>(36, 36)\<close> of \<open>create_icon(72)\<close> lies in the sun disc, and in the returned image it holds
  the gradient colour \<open>(161, 149, 246)\<close> under the glass overlay: the ellipse is drawn through
  \<open>draw\<close>, which holds the image made at line 11, and line 26 has bound \<open>img\<close> to a new
  image since.
\<close>

theorem create_icon_72_center:
  "pixel_of (returned (create_icon S 72 h)) (36, 36) = Inr (170, 159, 247, 255)"
  using pixel_of_create_icon [of 36 72 36 S h] gradient_ink_half [of 72 36 36]
  by (simp add: glass_ink composite_half)

text \<open>
  \<^bold>\<open>C2\<close>. For every positive size \<open>create_icon\<close> and lines 11 to 26 alone
  (\<open>gradient_and_glass\<close>) hand back the same image, or raise the same exception where
  \<open>Image.new\<close> refuses the size. Whenever \<open>create_icon\<close> returns, the two runs end with the
  same reference \<open>r\<close> and with stores that agree everywhere but at \<open>b\<close>, the image that
  \<open>Image.new\<close> made at line 11 and that \<open>ImageDraw.Draw\<close> holds: the sun, the rays and the
  highlight can only have changed that image, and it is not the returned one. The call
  returns for every positive size below 536870911.
\<close>

theorem create_icon_is_gradient_and_glass:
  assumes "0 < sz"
  shows "returned (create_icon S sz h) = returned (gradient_and_glass sz h)
         \<and> (\<forall>r hf. create_icon S sz h = Inr (r, hf) \<longrightarrow>
               (\<exists>b hg h1.
                   gradient_and_glass sz h = Inr (r, hg)
                 \<and> hf ! r = hg ! r
                 \<and> Image_new (sz, sz) (0, 0, 0, 0) h = Inr (b, h1)
                 \<and> b \<noteq> r
                 \<and> length hf = length hg
                 \<and> (\<forall>r' < length hf. r' \<noteq> b \<longrightarrow> hf ! r' = hg ! r')))
         \<and> (sz < 536870911 \<longrightarrow> (\<exists>r hf. create_icon S sz h = Inr (r, hf)))"
proof (intro conjI allI impI)
  show "returned (create_icon S sz h) = returned (gradient_and_glass sz h)"
  proof (cases "sz < 536870911")
    case True
    then show ?thesis
      using assms by (simp add: returned_create_icon returned_gradient_and_glass)
  next
    case False
    then show ?thesis
      by (simp add: create_icon_oversize gradient_and_glass_oversize)
  qed
next
  fix r hf
  assume ret: "create_icon S sz h = Inr (r, hf)"
  then have sm: "sz < 536870911" using create_icon_Inr_size [of S sz h] by simp
  have nn: "0 \<le> sz" using assms by simp
  obtain hf' where hf: "create_icon S sz h = Inr (length h + 2, hf')"
    "length hf' = length h + 3"
    "\<forall>r < length h + 3. r \<noteq> length h \<longrightarrow>
        hf' ! r = (h @ [\<lparr>width = nat sz, height = nat sz, data = gradient_data (nat sz)\<rparr>,
                       \<lparr>width = nat sz, height = nat sz, data = glass_data (nat sz)\<rparr>,
                       composed (nat sz)]) ! r"
    using create_icon_frame [OF nn sm, of S h] by blast
  from ret hf(1) have eq: "r = length h + 2" "hf = hf'" by simp_all
  have new: "Image_new (sz, sz) (0, 0, 0, 0) h
      = Inr (length h, h @ [\<lparr>width = nat sz, height = nat sz,
                            data = replicate (nat sz * nat sz) (getink (0, 0, 0, 0))\<rparr>])"
    using nn sm by (simp add: Image_new_def)
  show "\<exists>b hg h1.
           gradient_and_glass sz h = Inr (r, hg)
         \<and> hf ! r = hg ! r
         \<and> Image_new (sz, sz) (0, 0, 0, 0) h = Inr (b, h1)
         \<and> b \<noteq> r
         \<and> length hf = length hg
         \<and> (\<forall>r' < length hf. r' \<noteq> b \<longrightarrow> hf ! r' = hg ! r')"
    unfolding eq using hf new gradient_and_glass_result [OF nn sm, of h] by simp
next
  assume "sz < 536870911"
  then show "\<exists>r hf. create_icon S sz h = Inr (r, hf)"
    using create_icon_frame [of sz S h] assms by auto
qed

theorem create_icon_is_gradient_and_glass_witness:
  "(0::int) < 72
   \<and> returned (create_icon sample_shapes 72 []) = returned (gradient_and_glass 72 [])
   \<and> (\<exists>r hf b hg h1.
           create_icon sample_shapes 72 [] = Inr (r, hf)
         \<and> gradient_and_glass 72 [] = Inr (r, hg)
         \<and> hf ! r = hg ! r
         \<and> Image_new (72, 72) (0, 0, 0, 0) [] = Inr (b, h1)
         \<and> b \<noteq> r
         \<and> length hf = length hg)"
proof -
  have t: "returned (create_icon sample_shapes 72 []) = returned (gradient_and_glass 72 [])"
    "\<forall>r hf. create_icon sample_shapes 72 [] = Inr (r, hf) \<longrightarrow>
               (\<exists>b hg h1.
                   gradient_and_glass 72 [] = Inr (r, hg)
                 \<and> hf ! r = hg ! r
                 \<and> Image_new (72, 72) (0, 0, 0, 0) [] = Inr (b, h1)
                 \<and> b \<noteq> r
                 \<and> length hf = length hg
                 \<and> (\<forall>r' < length hf. r' \<noteq> b \<longrightarrow> hf ! r' = hg ! r'))"
    "\<exists>r hf. create_icon sample_shapes 72 [] = Inr (r, hf)"
    using create_icon_is_gradient_and_glass [of 72 sample_shapes "[]"] by simp_all
  from t(3) obtain r hf where "create_icon sample_shapes 72 [] = Inr (r, hf)" by blast
  with t(2) t(1) show ?thesis by fastforce
qed

text \<open>
  \<^bold>\<open>C3\<close> (for every size from 16 on, exactly 8 rays of nonzero length are drawn into the
  returned image). The code does not do this. At size 72 the sun radius is 16 and the ray
  length is 10, so each of the eight rays starts and ends at the same point, the start
  offset being the constant 10; and the returned image holds, at the end point
  \<open>(54, 18)\<close> of the top-right ray, the gradient under the glass overlay and not the ray
  colour \<open>(255, 215, 0, 255)\<close>, because the rays too are drawn through \<open>draw\<close>.
\<close>

theorem create_icon_72_rays:
  "py_int (fmul (float_of_int 72) (fl (23 / 100))) = 16
   \<and> py_int (fmul (float_of_int 72) (fl (15 / 100))) = 10
   \<and> map (\<lambda>i. ray_endpoints i (72 div 2) 16 10) [0, 1, 2, 3, 4, 5, 6, 7]
       = [(62, 36, 62, 36), (54, 54, 54, 54), (36, 62, 36, 62), (18, 54, 18, 54),
          (10, 36, 10, 36), (18, 18, 18, 18), (36, 10, 36, 10), (54, 18, 54, 18)]
   \<and> pixel_of (returned (create_icon S 72 h)) (54, 18) = Inr (170, 159, 247, 255)"
proof -
  have a: "py_int (fmul (float_of_int 72) (fl (23 / 100))) = 16"
    by (rule py_int_eqI) (simp_all add: fmul_def float_of_int_def fl_72 fl_lit_0_23 fl_72_sun)
  have b: "py_int (fmul (float_of_int 72) (fl (15 / 100))) = 10"
    by (rule py_int_eqI) (simp_all add: fmul_def float_of_int_def fl_72 fl_lit_0_15 fl_72_ray)
  have d: "py_int (fmul (float_of_int 26) (fl (7071 / 10000))) = 18"
    by (rule py_int_eqI) (simp_all add: fmul_def float_of_int_def fl_26 fl_lit_0_7071 fl_26_diag)
  have c: "map (\<lambda>i. ray_endpoints i (72 div 2) 16 10) [0, 1, 2, 3, 4, 5, 6, 7]
       = [(62, 36, 62, 36), (54, 54, 54, 54), (36, 62, 36, 62), (18, 54, 18, 54),
          (10, 36, 10, 36), (18, 18, 18, 18), (36, 10, 36, 10), (54, 18, 54, 18)]"
    by (simp add: ray_endpoints_def Let_def d)
  have e: "pixel_of (returned (create_icon S 72 h)) (54, 18) = Inr (170, 159, 247, 255)"
    using pixel_of_create_icon [of 54 72 18 S h] gradient_ink_half [of 72 54 18]
    by (simp add: glass_ink composite_half)
  from a b c e show ?thesis by blast
qed

text \<open>
  \<^bold>\<open>C4\<close>. \<open>create_icon\<close> is a function of its size alone: two calls with the same size,
  started in any two stores, hand back the same image (width, height and every pixel), or
  raise the same exception.
\<close>

theorem create_icon_deterministic:
  "returned (create_icon S sz h1) = returned (create_icon S sz h2)"
proof -
  consider "sz < 0" | "0 \<le> sz" "sz < 536870911" | "536870911 \<le> sz" by linarith
  then show ?thesis
  proof cases
    case 1
    then show ?thesis by (simp add: create_icon_negative)
  next
    case 2
    then show ?thesis by (simp add: returned_create_icon)
  next
    case 3
    then show ?thesis by (simp add: create_icon_oversize)
  qed
qed

text \<open>
  \<^bold>\<open>C5\<close> as stated (every size \<open>\<le> 0\<close> raises, none returns an empty image) fails at size 0:
  \<open>Image.new\<close> accepts a zero width and height, no loop runs, and the call returns the empty
  image.
\<close>

theorem create_icon_0_returns:
  "returned (create_icon sample_shapes 0 []) = Inr \<lparr>width = 0, height = 0, data = []\<rparr>"
  using returned_create_icon [of 0 sample_shapes "[]"] by (simp add: composed_0)

text \<open>
  \<^bold>\<open>C5\<close>, amended. For every negative size \<open>create_icon\<close> raises the \<open>ValueError\<close> of
  \<open>Image.new\<close>, which nothing catches; for size 0 it returns the empty \<open>0 \<times> 0\<close> image.
\<close>

theorem create_icon_nonpositive:
  "(sz < 0 \<longrightarrow> create_icon S sz h = Inl ValueError)
   \<and> (sz = 0 \<longrightarrow> returned (create_icon S sz h) = Inr \<lparr>width = 0, height = 0, data = []\<rparr>)"
  using returned_create_icon [of 0 S h] by (simp add: create_icon_negative composed_0)

theorem create_icon_nonpositive_witness:
  "((- 1 :: int) < 0 \<and> create_icon sample_shapes (- 1) [] = Inl ValueError)
   \<and> ((0 :: int) = 0
        \<and> returned (create_icon sample_shapes 0 []) = Inr \<lparr>width = 0, height = 0, data = []\<rparr>)"
  using create_icon_nonpositive [of "- 1" sample_shapes "[]"]
    create_icon_nonpositive [of 0 sample_shapes "[]"]
  by simp

text \<open>
  \<^bold>\<open>C6\<close> as stated (after the gradient step the blue channel of every pixel is
  \<open>\<lfloor>234 + gradient \<times> 24\<rfloor>\<close>) fails at size 16, pixel \<open>(15, 15)\<close>: the colour computed there is
  \<open>(212, 169, 256, 255)\<close>, and the pixel holds \<open>(212, 169, 255, 255)\<close>, a channel being 8
  bits wide.
\<close>

theorem gradient_step_16_corner:
  "gradient_color 16 15 15 = Inr (212, 169, 256, 255)
   \<and> pixel_of (returned (gradient_step 16 [])) (15, 15) = Inr (212, 169, 255, 255)"
proof -
  have "gradient_ink 16 15 15 = (212, 169, 255, 255)"
    using gradient_ink_color [OF gradient_color_16_corner] by (simp add: getink_def clip8_def)
  then show ?thesis
    using pixel_of_gradient_step [of 15 16 15 "[]"] gradient_color_16_corner by simp
qed

text \<open>
  \<^bold>\<open>C6\<close>, amended. For every positive size \<open>sz\<close> and every pixel \<open>(x, y)\<close> of the canvas
  after the gradient step, the gradient value is the float \<open>(x + y) / (2 * sz)\<close>, which lies
  in \<open>[0, 1)\<close>; the red and green channels are \<open>\<lfloor>102 + gradient \<times> 118\<rfloor>\<close> and
  \<open>\<lfloor>126 + gradient \<times> 46\<rfloor>\<close> in float arithmetic, the blue channel is \<open>\<lfloor>234 + gradient \<times> 24\<rfloor>\<close>
  clamped to 255, alpha is 255, and pixel \<open>(0, 0)\<close> is \<open>(102, 126, 234, 255)\<close>. The canvas
  exists for every positive size below 536870911; from there on \<open>Image.new\<close> raises and
  there is no canvas.
\<close>

theorem gradient_step_pixels:
  assumes "0 < sz" "0 \<le> x" "x < sz" "0 \<le> y" "y < sz"
  shows "(\<forall>im. returned (gradient_step sz h) = Inr im \<longrightarrow>
           (\<exists>gradient R G B.
               truediv (x + y) (2 * sz) = Inr gradient
             \<and> 0 \<le> gradient \<and> gradient < 1
             \<and> R = py_int (fadd 102 (fmul gradient 118)) \<and> 102 \<le> R \<and> R \<le> 220
             \<and> G = py_int (fadd 126 (fmul gradient 46)) \<and> 126 \<le> G \<and> G \<le> 172
             \<and> B = py_int (fadd 234 (fmul gradient 24)) \<and> 234 \<le> B \<and> B \<le> 257
             \<and> getpixel im (x, y)
                 = Inr (word_of_int R, word_of_int G, word_of_int (min 255 B), 255)
             \<and> getpixel im (0, 0) = Inr (102, 126, 234, 255)))
         \<and> (sz < 536870911 \<longrightarrow> (\<exists>im. returned (gradient_step sz h) = Inr im))"
proof (intro conjI allI impI)
  fix im
  assume ret: "returned (gradient_step sz h) = Inr im"
  then have sm: "sz < 536870911" using gradient_step_returns [of sz h im] by simp
  let ?g = "fl (of_int (x + y) / of_int (2 * sz))"
  have t: "truediv (x + y) (2 * sz) = Inr ?g" using assms by (simp add: truediv_def)
  have g0: "0 \<le> ?g" and g1: "?g \<le> 1" and g2: "?g < 1"
    using gradient_value_range [OF assms] sm by simp_all
  note c = float_consts
  let ?R = "py_int (fadd 102 (fmul ?g 118))"
  let ?G = "py_int (fadd 126 (fmul ?g 46))"
  let ?B = "py_int (fadd 234 (fmul ?g 24))"
  have R: "102 \<le> ?R \<and> ?R \<le> 220"
    using channel_range [OF g0 g1, of 102 118] by (simp add: c fl_102 fl_118 fl_220)
  have G: "126 \<le> ?G \<and> ?G \<le> 172"
    using channel_range [OF g0 g1, of 126 46] by (simp add: c fl_126 fl_46 fl_172)
  have B: "234 \<le> ?B"
    using channel_range [OF g0 g1, of 234 24] by (simp add: c fl_234 fl_24 fl_258)
  have B': "?B \<le> 257" by (rule blue_below_258 [OF assms(1) sm assms(2-5)])
  have ink: "gradient_ink sz x y = (word_of_int ?R, word_of_int ?G, word_of_int (min 255 ?B), 255)"
    using R G B by (simp add: gradient_ink_def Let_def c clip8_min clip8_id)
  have p: "getpixel im (x, y)
      = Inr (word_of_int ?R, word_of_int ?G, word_of_int (min 255 ?B), 255)"
    using pixel_of_gradient_step [OF assms(2-5) sm, of h] ink ret by (simp add: pixel_of_def)
  have o: "getpixel im (0, 0) = Inr (102, 126, 234, 255)"
    using pixel_of_gradient_step [of 0 sz 0 h] assms(1) sm gradient_ink_origin [of sz] ret
    by (simp add: pixel_of_def)
  show "\<exists>gradient R G B.
               truediv (x + y) (2 * sz) = Inr gradient
             \<and> 0 \<le> gradient \<and> gradient < 1
             \<and> R = py_int (fadd 102 (fmul gradient 118)) \<and> 102 \<le> R \<and> R \<le> 220
             \<and> G = py_int (fadd 126 (fmul gradient 46)) \<and> 126 \<le> G \<and> G \<le> 172
             \<and> B = py_int (fadd 234 (fmul gradient 24)) \<and> 234 \<le> B \<and> B \<le> 257
             \<and> getpixel im (x, y)
                 = Inr (word_of_int R, word_of_int G, word_of_int (min 255 B), 255)
             \<and> getpixel im (0, 0) = Inr (102, 126, 234, 255)"
    by (rule exI [of _ ?g], rule exI [of _ ?R], rule exI [of _ ?G], rule exI [of _ ?B])
      (use t g0 g2 R G B B' p o in blast)
next
  assume "sz < 536870911"
  then show "\<exists>im. returned (gradient_step sz h) = Inr im"
    using assms(1) by (simp add: returned_gradient_step)
qed

theorem gradient_step_pixels_witness:
  "(0::int) < 72 \<and> (0::int) \<le> 36 \<and> (36::int) < 72
   \<and> (\<exists>im gradient R G B.
           returned (gradient_step 72 []) = Inr im
         \<and> truediv (36 + 36) (2 * 72) = Inr gradient
         \<and> 0 \<le> gradient \<and> gradient < 1
         \<and> R = py_int (fadd 102 (fmul gradient 118)) \<and> 102 \<le> R \<and> R \<le> 220
         \<and> G = py_int (fadd 126 (fmul gradient 46)) \<and> 126 \<le> G \<and> G \<le> 172
         \<and> B = py_int (fadd 234 (fmul gradient 24)) \<and> 234 \<le> B \<and> B \<le> 257
         \<and> getpixel im (36, 36)
             = Inr (word_of_int R, word_of_int G, word_of_int (min 255 B), 255)
         \<and> getpixel im (0, 0) = Inr (102, 126, 234, 255))"
proof -
  have pre: "(0::int) < 72" "(0::int) \<le> 36" "(36::int) < 72" by simp_all
  note T = gradient_step_pixels [OF pre(1) pre(2) pre(3) pre(2) pre(3), of "[]"]
  from T have "\<exists>im. returned (gradient_step 72 []) = Inr im" by simp
  then obtain im where im: "returned (gradient_step 72 []) = Inr im" by blast
  note A = T [THEN conjunct1, rule_format, OF im]
  from A im pre show ?thesis by blast
qed

text \<open>
  \<^bold>\<open>C7\<close>. For each of the sizes 72, 96, 128, 144, 152, 192, 384 and 512 that \<open>main\<close> asks
  for, \<open>create_icon\<close> returns an image whose width and height are that size, with one
  pixel for each position.
\<close>

theorem create_icon_size:
  assumes "sz \<in> set sizes"
  shows "\<exists>im. returned (create_icon S sz h) = Inr im
           \<and> int (width im) = sz \<and> int (height im) = sz
           \<and> int (length (data im)) = sz * sz"
proof -
  have "0 \<le> sz \<and> sz < 536870911" using assms by (auto simp: sizes_def)
  then show ?thesis
    by (simp add: returned_create_icon composed_def length_gradient_data glass_data_def)
qed

theorem create_icon_size_witness:
  "(72::int) \<in> set sizes
   \<and> (\<exists>im. returned (create_icon sample_shapes 72 []) = Inr im
           \<and> int (width im) = 72 \<and> int (height im) = 72
           \<and> int (length (data im)) = 72 * 72)"
  using create_icon_size [of 72 sample_shapes "[]"] by (simp add: sizes_def)

text \<open>
  \<^bold>\<open>C8\<close> as stated (the diagonal rays use the constant \<open>0.70711\<close>) fails at size 892, where
  the sun radius is 205 and the ray length 133: the bottom-right ray ends at \<open>(684, 684)\<close>,
  and with \<open>0.70711\<close> its end would be at 685.
\<close>

theorem ray_diagonal_892:
  "py_int (fmul (float_of_int 892) (fl (23 / 100))) = 205
   \<and> py_int (fmul (float_of_int 892) (fl (15 / 100))) = 133
   \<and> ray_endpoints 1 (892 div 2) 205 133 = (598, 598, 684, 684)
   \<and> 892 div 2 + claimed_diagonal (205 + 133) = 685"
proof -
  have a: "py_int (fmul (float_of_int 892) (fl (23 / 100))) = 205"
    by (rule py_int_eqI) (simp_all add: fmul_def float_of_int_def fl_892 fl_lit_0_23 fl_892_sun)
  have b: "py_int (fmul (float_of_int 892) (fl (15 / 100))) = 133"
    by (rule py_int_eqI) (simp_all add: fmul_def float_of_int_def fl_892 fl_lit_0_15 fl_892_ray)
  have s: "py_int (fmul (float_of_int 215) (fl (7071 / 10000))) = 152"
    by (rule py_int_eqI) (simp_all add: fmul_def float_of_int_def fl_215 fl_lit_0_7071 fl_215_diag)
  have e: "py_int (fmul (float_of_int 338) (fl (7071 / 10000))) = 238"
    by (rule py_int_eqI) (simp_all add: fmul_def float_of_int_def fl_338 fl_lit_0_7071 fl_338_diag)
  have c: "py_int (fmul (float_of_int 338) (fl (70711 / 100000))) = 239"
    by (rule py_int_eqI)
      (simp_all add: fmul_def float_of_int_def fl_338 fl_lit_0_70711 fl_338_claimed)
  have r: "ray_endpoints 1 (892 div 2) 205 133 = (598, 598, 684, 684)"
    by (simp add: ray_endpoints_def Let_def s e)
  have d: "892 div 2 + claimed_diagonal (205 + 133) = 685"
    by (simp add: claimed_diagonal_def c)
  from a b r d show ?thesis by blast
qed

text \<open>
  \<^bold>\<open>C8\<close>, amended. Ray \<open>i\<close> of \<open>range(8)\<close> runs along compass direction \<open>i\<close>, from the
  point at distance \<open>sun_radius + 10\<close> to the point at distance \<open>sun_radius + ray_length\<close>:
  an axis-aligned ray moves that distance along its unit axis, and a diagonal ray moves
  \<open>int(distance * 0.7071)\<close> along both axes, the constant being \<open>0.7071\<close>. This holds for
  every centre, radius and length, so for those of every size (\<open>center = size // 2\<close>,
  \<open>sun_radius = int(size * 0.23)\<close>, \<open>ray_length = int(size * 0.15)\<close>).
\<close>

theorem ray_endpoints_along_compass:
  assumes "0 \<le> i" "i < 8"
  shows "ray_endpoints i center sun_radius ray_length =
           (center + fst (compass_step i) * ray_reach i (sun_radius + 10),
            center + snd (compass_step i) * ray_reach i (sun_radius + 10),
            center + fst (compass_step i) * ray_reach i (sun_radius + ray_length),
            center + snd (compass_step i) * ray_reach i (sun_radius + ray_length))"
proof -
  have "i \<in> {0, 1, 2, 3, 4, 5, 6, 7}" using assms by auto
  then show ?thesis
    by (auto simp: ray_endpoints_def compass_step_def ray_reach_def Let_def)
qed

theorem ray_endpoints_along_compass_witness:
  "(0::int) \<le> 1 \<and> (1::int) < 8
   \<and> ray_endpoints 1 446 205 133 =
           (446 + fst (compass_step 1) * ray_reach 1 (205 + 10),
            446 + snd (compass_step 1) * ray_reach 1 (205 + 10),
            446 + fst (compass_step 1) * ray_reach 1 (205 + 133),
            446 + snd (compass_step 1) * ray_reach 1 (205 + 133))"
  using ray_endpoints_along_compass [of 1 446 205 133] by simp




text \<open>
  \<^bold>\<open>C10\<close>. For every positive size, every pixel of the image \<open>create_icon\<close> returns has
  alpha 255: the gradient step stores alpha 255 everywhere, and the overlay of alpha 25
  composed over it keeps 255. The call returns an image for every positive size below
  536870911; from there on \<open>Image.new\<close> raises and no image is returned.
\<close>

theorem create_icon_opaque:
  assumes "0 < sz" "0 \<le> x" "x < sz" "0 \<le> y" "y < sz"
  shows "(\<forall>im. returned (create_icon S sz h) = Inr im \<longrightarrow>
            (\<exists>r g b. getpixel im (x, y) = Inr (r, g, b, 255)))
         \<and> (sz < 536870911 \<longrightarrow> (\<exists>im. returned (create_icon S sz h) = Inr im))"
proof (intro conjI allI impI)
  fix im
  assume ret: "returned (create_icon S sz h) = Inr im"
  then have sm: "sz < 536870911" using create_icon_returns [of S sz h im] by simp
  obtain r g b where "gradient_ink sz x y = (r, g, b, 255)"
    by (simp add: gradient_ink_def Let_def)
  then show "\<exists>r g b. getpixel im (x, y) = Inr (r, g, b, 255)"
    using pixel_of_create_icon [OF assms(2-5) sm, of S h] composite_opaque [of r g b] ret
    by (simp add: glass_ink pixel_of_def)
next
  assume "sz < 536870911"
  then show "\<exists>im. returned (create_icon S sz h) = Inr im"
    using assms(1) by (simp add: returned_create_icon)
qed

theorem create_icon_opaque_witness:
  "(0::int) < 72 \<and> (0::int) \<le> 36 \<and> (36::int) < 72
   \<and> (\<exists>im r g b. returned (create_icon sample_shapes 72 []) = Inr im
          \<and> getpixel im (36, 36) = Inr (r, g, b, 255))"
proof -
  have t: "\<forall>im. returned (create_icon sample_shapes 72 []) = Inr im \<longrightarrow>
            (\<exists>r g b. getpixel im (36, 36) = Inr (r, g, b, 255))"
    "\<exists>im. returned (create_icon sample_shapes 72 []) = Inr im"
    using create_icon_opaque [of 72 36 36 sample_shapes "[]"] by simp_all
  from t(2) obtain im where "returned (create_icon sample_shapes 72 []) = Inr im" by blast
  with t(1) show ?thesis by simp
qed

end
